theory Spec2Isabelle
  imports Complex_Main
begin

section \<open>Values of the Python program\<close>

text \<open>
  The network of \<^verbatim>\<open>NetworkClass.py\<close> is one Python object which its methods mutate in
  place.  It is embedded as a record that every method takes and returns.  A raised
  exception is a value of \<open>error\<close>; a method that can raise after it has already
  mutated the object returns the exception together with the object as it then stands.

  Floating-point numbers are idealised as reals.  A division by a parameter that is zero
  gives \<open>inf\<close> or \<open>nan\<close> in numpy and \<open>0\<close> in HOL; where a result depends on such a
  division the parameter is assumed to be nonzero, or the non-finite value is written out.
\<close>

datatype error = KeyError | IndexError | ValueError | UnboundLocalError
  | AttributeError | ZeroDivisionError

text \<open>The three bound methods that the constructor stores in the object: the LIF family
  or the SFA family.\<close>

datatype kernel = LIF_kernel | SFA_kernel

subsection \<open>numpy operations on one-dimensional arrays\<close>

text \<open>An elementwise binary operation with numpy's broadcasting of two one-dimensional
  shapes: equal lengths combine pointwise, a length of one is stretched, anything else
  raises ValueError.\<close>

definition bcast :: "(real \<Rightarrow> real \<Rightarrow> real) \<Rightarrow> real list \<Rightarrow> real list \<Rightarrow> error + real list" where
  "bcast f xs ys =
     (if length xs = length ys then Inr (map2 f xs ys)
      else if length xs = 1 then Inr (map (f (hd xs)) ys)
      else if length ys = 1 then Inr (map (\<lambda>x. f x (hd ys)) xs)
      else Inl ValueError)"

text \<open>\<open>xs[idx]\<close> with an array of indices.\<close>

definition take_idx :: "real list \<Rightarrow> nat list \<Rightarrow> error + real list" where
  "take_idx xs idx =
     (if list_all (\<lambda>k. k < length xs) idx then Inr (map (\<lambda>k. xs ! k) idx)
      else Inl IndexError)"

text \<open>\<open>xs[idx] = vals\<close> with an array of indices: the values must have the shape of the
  index array or be a single value.\<close>

definition put_idx :: "real list \<Rightarrow> nat list \<Rightarrow> real list \<Rightarrow> error + real list" where
  "put_idx xs idx vals =
     (if \<not> list_all (\<lambda>k. k < length xs) idx then Inl IndexError
      else if length vals = length idx
        then Inr (fold (\<lambda>kv acc. acc[fst kv := snd kv]) (zip idx vals) xs)
      else if length vals = 1
        then Inr (fold (\<lambda>k acc. acc[k := hd vals]) idx xs)
      else Inl ValueError)"

text \<open>\<open>xs[idx] = v\<close> with a scalar on the right.\<close>

definition fill_idx :: "real list \<Rightarrow> nat list \<Rightarrow> real \<Rightarrow> error + real list" where
  "fill_idx xs idx v =
     (if list_all (\<lambda>k. k < length xs) idx then Inr (fold (\<lambda>k acc. acc[k := v]) idx xs)
      else Inl IndexError)"

text \<open>\<open>np.nonzero\<close> and \<open>np.where\<close> of a one-dimensional array: the positions that hold
  a true (nonzero) entry, in increasing order.\<close>

definition nonzero :: "bool list \<Rightarrow> nat list" where
  "nonzero bs = filter (\<lambda>k. bs ! k) [0..<length bs]"

text \<open>\<open>M.dot(v)\<close> for a matrix stored as its list of rows.\<close>

definition dot :: "real list list \<Rightarrow> real list \<Rightarrow> real list" where
  "dot M v = map (\<lambda>row. sum_list (map2 (*) row v)) M"

definition mask_of :: "real list list \<Rightarrow> bool list list" where
  "mask_of M = map (map (\<lambda>x. x \<noteq> 0)) M"

definition as_float :: "bool list list \<Rightarrow> real list list" where
  "as_float B = map (map of_bool) B"

text \<open>\<open>M[:, i] = v\<close> and its read \<open>M[:, i]\<close>.\<close>

definition set_col :: "real list list \<Rightarrow> nat \<Rightarrow> real list \<Rightarrow> real list list" where
  "set_col M i v = map2 (\<lambda>row x. row[i := x]) M v"

definition col :: "real list list \<Rightarrow> nat \<Rightarrow> real list" where
  "col M i = map (\<lambda>row. row ! i) M"

definition zeros2 :: "nat \<Rightarrow> nat \<Rightarrow> real list list" where
  "zeros2 r c = replicate r (replicate c 0)"

text \<open>\<open>np.heaviside(x, 1)\<close>.\<close>

definition heaviside1 :: "real \<Rightarrow> real" where
  "heaviside1 x = (if x < 0 then 0 else 1)"

text \<open>\<open>np.linspace(a, b, num)\<close>: \<open>num\<close> evenly spaced samples with both ends included.\<close>

definition linspace :: "real \<Rightarrow> real \<Rightarrow> nat \<Rightarrow> real list" where
  "linspace a b num =
     (if num = 1 then [a]
      else map (\<lambda>k. a + real k * ((b - a) / real (num - 1))) [0..<num])"

text \<open>A pair indexed by a neuron type: entry 0 for an inhibitory neuron (type 0, here
  \<open>False\<close>), entry 1 for an excitatory one (type 1, here \<open>True\<close>).\<close>

definition pick :: "real \<times> real \<Rightarrow> bool \<Rightarrow> real" where
  "pick p ty = (if ty then snd p else fst p)"

subsection \<open>The network object\<close>

text \<open>
  The fields carry the names of the attributes of \<open>Network\<close>, but for the one-letter
  attributes: \<open>t_now\<close> is \<open>self.t\<close>, \<open>n_open\<close> is \<open>self.n\<close>, \<open>A_act\<close> is \<open>self.A\<close>,
  \<open>R_m\<close> is \<open>self.R\<close> and \<open>J_syn\<close> is \<open>self.J\<close>.  The attributes \<open>w\<close> and \<open>fig\<close>,
  which no method modelled here reads or writes, are left out.  An attribute that the
  constructor sets only on some paths (\<open>model\<close>, \<open>synaptic_current\<close>, \<open>input_current\<close>)
  is an option.  The recorded series are stored as in the source, one row per neuron and
  one column per step.
\<close>

record net =
  Vth :: real
  Vr :: real
  Vreset :: real
  R_m :: real
  tau :: real
  dt :: real
  t_now :: real
  dim :: "nat \<times> nat \<times> nat"
  clusters :: nat
  neuron_num :: nat
  cluster_pr :: real
  ref :: "real \<times> real"
  input_num :: nat
  input_t :: "real list"
  input_t_syn :: "real list"
  connect_const :: "bool \<times> bool \<rightharpoonup> real"
  lamb_in :: real
  connections :: "real list list"
  input_connections :: "real list list"
  tau_psc :: "real \<times> real"
  lamb :: real
  keep_data :: bool
  model_type :: string
  model :: "kernel option"
  synaptic_current :: "kernel option"
  input_current :: "kernel option"
  inh_idx :: "nat list"
  type_array :: "bool list"
  V_syn :: "bool \<times> bool \<rightharpoonup> real"
  connections_bool :: "bool list list"
  in_connections_bool :: "bool list list"
  Vk :: real
  gk :: real
  alpha :: real
  tauN :: real
  J_syn :: real
  tauRise :: real
  tauDec :: real
  activity_size :: nat
  active_syn :: "nat list"
  spikes :: "bool list"
  spikes_in :: "nat list"
  spikes_syn :: "nat list"
  spikes_t :: "real list"
  spikes_t_syn :: "real list"
  Vs :: "real list"
  Is :: "real list"
  EPSC :: "real list"
  n_open :: "real list"
  Ia :: "real list"
  active :: "nat list"
  A_act :: "real list"
  isi :: "real list"
  Vseq :: "real list list"
  spikes_seq :: "real list list"
  EPSC_seq :: "real list list"
  A_seq :: "real list list"
  n_seq :: "real list list"
  I_seq :: "real list list"

text \<open>The arguments of the constructor.  \<open>c_Vreset\<close> is the drop of the potential after
  a spike.  The sample of inhibitory neurons, which the constructor draws with
  \<open>np.random.choice\<close>, and the stream of the later \<open>np.random.rand()\<close> draws are
  arguments of the model of the constructor.\<close>

record config =
  c_model :: string
  c_dim :: "nat \<times> nat \<times> nat"
  c_Vreset :: real
  c_R :: real
  c_tau :: real
  c_Vr :: real
  c_Vth :: real
  c_lamb :: real
  c_ref :: "real \<times> real"
  c_lamb_in :: real
  c_tau_psc :: "real \<times> real"
  c_keep_data :: bool
  c_dt :: real
  c_tauRise :: real
  c_tauDec :: real
  c_Vk :: real
  c_gk :: real
  c_alpha :: real
  c_tauN :: real
  c_J :: real
  c_input_num :: nat
  c_clusters :: nat
  c_cluster_pr :: real
  c_V_syn :: "bool \<times> bool \<rightharpoonup> real"
  c_connect_const :: "bool \<times> bool \<rightharpoonup> real"


section \<open>Topology generation\<close>

text \<open>\<open>np.unravel_index(idx, dim)\<close> in row-major order; numpy raises ValueError for an
  index outside the lattice.\<close>

definition unravel :: "nat \<times> nat \<times> nat \<Rightarrow> nat \<Rightarrow> nat \<times> nat \<times> nat" where
  "unravel d idx = (case d of (d0, d1, d2) \<Rightarrow> (idx div (d1 * d2), (idx div d2) mod d1, idx mod d2))"

definition lattice_size :: "nat \<times> nat \<times> nat \<Rightarrow> nat" where
  "lattice_size d = (case d of (d0, d1, d2) \<Rightarrow> d0 * d1 * d2)"

definition get_pos :: "net \<Rightarrow> nat \<Rightarrow> error + nat \<times> nat \<times> nat" where
  "get_pos s idx =
     (if idx < lattice_size (dim s) then Inr (unravel (dim s) idx) else Inl ValueError)"

definition norm3 :: "real \<times> real \<times> real \<Rightarrow> real" where
  "norm3 v = (case v of (a, b, c) \<Rightarrow> sqrt (a\<^sup>2 + b\<^sup>2 + c\<^sup>2))"

definition vsub :: "real \<times> real \<times> real \<Rightarrow> real \<times> real \<times> real \<Rightarrow> real \<times> real \<times> real" where
  "vsub u v = (case u of (a, b, c) \<Rightarrow> case v of (x, y, z) \<Rightarrow> (a - x, b - y, c - z))"

definition rpos :: "nat \<times> nat \<times> nat \<Rightarrow> real \<times> real \<times> real" where
  "rpos p = (case p of (a, b, c) \<Rightarrow> (real a, real b, real c))"

text \<open>\<open>mid = self.dim[2] // 2 - 0.5\<close>.\<close>

definition mid_of :: "net \<Rightarrow> real" where
  "mid_of s = (case dim s of (d0, d1, d2) \<Rightarrow> real (d2 div 2) - 1 / 2)"

text \<open>\<open>connect_pr = c * np.exp(-(neurons_dist / lam) ** 2)\<close>.\<close>

definition connect_pr :: "real \<Rightarrow> real \<Rightarrow> real \<Rightarrow> real" where
  "connect_pr c neurons_dist lam = c * exp (- ((neurons_dist / lam)\<^sup>2))"

text \<open>
  The test \<open>np.random.rand() < connect_pr\<close> for a draw \<open>u\<close> of \<open>[0, 1)\<close>.  With \<open>lam = 0\<close>
  numpy divides a float by zero without raising: the quotient is \<open>inf\<close> or \<open>nan\<close>, the
  probability is \<open>0\<close> or \<open>nan\<close>, and the comparison is false.
\<close>

definition edge_drawn :: "real \<Rightarrow> real \<Rightarrow> real \<Rightarrow> real \<Rightarrow> bool" where
  "edge_drawn u c neurons_dist lam = (lam \<noteq> 0 \<and> u < connect_pr c neurons_dist lam)"

text \<open>\<open>not(np.isin(j, self.inh_idx))\<close>: the key component of an excitatory neuron is
  \<open>True\<close>, which as a dictionary key is the same as \<open>1\<close>.\<close>

definition excitatory :: "net \<Rightarrow> nat \<Rightarrow> bool" where
  "excitatory s j = (j \<notin> set (inh_idx s))"

definition lookup :: "('k \<rightharpoonup> real) \<Rightarrow> 'k \<Rightarrow> error + real" where
  "lookup m k = (case m k of None \<Rightarrow> Inl KeyError | Some v \<Rightarrow> Inr v)"

definition set_entry :: "real list list \<Rightarrow> nat \<Rightarrow> nat \<Rightarrow> real \<Rightarrow> real list list" where
  "set_entry M i j v = M[i := (M ! i)[j := v]]"

text \<open>A \<open>for\<close> loop whose body can raise: the first exception ends it.\<close>

fun foldE :: "('a \<Rightarrow> 'b \<Rightarrow> error + 'b) \<Rightarrow> 'a list \<Rightarrow> 'b \<Rightarrow> error + 'b" where
  "foldE f [] acc = Inr acc"
| "foldE f (x # xs) acc = (case f x acc of Inl e \<Rightarrow> Inl e | Inr acc' \<Rightarrow> foldE f xs acc')"

text \<open>
  The body of the first loop nest of \<open>generate_connections\<close>, for input channel \<open>i\<close> and
  neuron \<open>j\<close>.  The loop state is the matrix \<open>input_connections\<close> and the number of
  random draws made so far; \<open>rnd k\<close> is the value of draw \<open>k\<close>.
\<close>

definition input_edge ::
  "(nat \<Rightarrow> real) \<Rightarrow> net \<Rightarrow> nat \<times> nat \<Rightarrow> real list list \<times> nat \<Rightarrow> error + real list list \<times> nat" where
  "input_edge rnd s ij st =
     (case ij of (i, j) \<Rightarrow> case st of (M, k) \<Rightarrow>
        (case get_pos s j of Inl e \<Rightarrow> Inl e | Inr p \<Rightarrow>
           (let mid = mid_of s;
                neurons_dist = norm3 (vsub (rpos p) (0, real (snd (snd (dim s))) - mid, mid));
                c = 242 / 1000
            in if edge_drawn (rnd k) c neurons_dist (lamb_in s)
               then (case lookup (V_syn s) (excitatory s j, True) of
                       Inl e \<Rightarrow> Inl e
                     | Inr w \<Rightarrow> Inr (set_entry M j i w, Suc k))
               else Inr (M, Suc k))))"

text \<open>\<open>i // (self.neuron_num / self.clusters)\<close>: a floor division by a float.\<close>

definition cluster_of :: "net \<Rightarrow> nat \<Rightarrow> int" where
  "cluster_of s i = \<lfloor>real i / (real (neuron_num s) / real (clusters s))\<rfloor>"

text \<open>The body of the second loop nest, for the neurons \<open>i\<close> and \<open>j\<close>.  Both positions
  are looked up first; the loops only visit indices of the lattice, for which \<open>get_pos\<close>
  does not raise.  Between clusters with \<open>i \<le> j\<close> the probability is 0 and the draw is
  compared with it.\<close>

definition neuron_edge ::
  "(nat \<Rightarrow> real) \<Rightarrow> net \<Rightarrow> nat \<times> nat \<Rightarrow> real list list \<times> nat \<Rightarrow> error + real list list \<times> nat" where
  "neuron_edge rnd s ij st =
     (case ij of (i, j) \<Rightarrow> case st of (M, k) \<Rightarrow>
        if i = j then Inr (M, k)
        else
          (case get_pos s i of Inl e \<Rightarrow> Inl e | Inr p_i \<Rightarrow>
           case get_pos s j of Inl e \<Rightarrow> Inl e | Inr p_j \<Rightarrow>
             (let mid = mid_of s;
                  d1 = real (fst (snd (dim s)));
                  pr =
                    (if cluster_of s i \<noteq> cluster_of s j \<and> clusters s > 1 then
                       (if i > j then
                          Inr (edge_drawn (rnd k) (cluster_pr s)
                                 ((norm3 (vsub (rpos p_i) (0, d1 - mid, mid))
                                    + norm3 (vsub (rpos p_j) (0, mid, mid))) / 2)
                                 (lamb s))
                        else Inr (rnd k < 0))
                     else
                       (case lookup (connect_const s) (excitatory s i, excitatory s j) of
                          Inl e \<Rightarrow> Inl e
                        | Inr c \<Rightarrow>
                            Inr (edge_drawn (rnd k) c (norm3 (vsub (rpos p_i) (rpos p_j))) (lamb s))))
              in case pr of
                   Inl e \<Rightarrow> Inl e
                 | Inr drawn \<Rightarrow>
                     if drawn
                     then (case lookup (V_syn s) (excitatory s i, excitatory s j) of
                             Inl e \<Rightarrow> Inl e
                           | Inr w \<Rightarrow> Inr (set_entry M i j w, Suc k))
                     else Inr (M, Suc k))))"

definition generate_connections :: "(nat \<Rightarrow> real) \<Rightarrow> net \<Rightarrow> error + net" where
  "generate_connections rnd s =
     (case foldE (input_edge rnd s)
             (List.product [0..<input_num s] [0..<neuron_num s div clusters s])
             (input_connections s, 0) of
        Inl e \<Rightarrow> Inl e
      | Inr (M_in, k) \<Rightarrow>
          (case foldE (neuron_edge rnd s)
                  (List.product [0..<neuron_num s] [0..<neuron_num s])
                  (connections s, k) of
             Inl e \<Rightarrow> Inl e
           | Inr (M_c, k2) \<Rightarrow> Inr (s\<lparr>input_connections := M_in, connections := M_c\<rparr>)))"

section \<open>Per-run state\<close>

text \<open>
  \<open>reset_history\<close>.  The store \<open>self.type_array[self.inh_idx] = 0\<close> cannot raise: the
  indices come from \<open>np.random.choice(self.neuron_num, ...)\<close> and are below the length of
  \<open>type_array\<close>.  The integer zero arrays are lists of naturals.
\<close>

definition reset_history :: "net \<Rightarrow> net" where
  "reset_history s =
     (let asz = (if model_type s = ''SOC_syn'' then neuron_num s + input_num s else neuron_num s)
      in s\<lparr>activity_size := asz,
            active_syn := (if model_type s = ''SOC_syn'' then replicate asz 0 else active_syn s),
            spikes := replicate (neuron_num s) False,
            spikes_in := replicate (input_num s) 0,
            spikes_syn := replicate asz 0,
            spikes_t := replicate (neuron_num s) (- 1),
            spikes_t_syn := replicate (neuron_num s) (- 1),
            Vs := replicate (neuron_num s) (Vr s),
            Is := replicate (neuron_num s) 0,
            EPSC := replicate (neuron_num s) 0,
            n_open := replicate (neuron_num s) 0,
            Ia := replicate (neuron_num s) 0,
            type_array := fold (\<lambda>k ta. ta[k := False]) (inh_idx s) (type_array s),
            active := replicate asz 0,
            A_act := replicate asz 0,
            isi := []\<rparr>)"

section \<open>The constructor\<close>

text \<open>
  \<open>Network.__init__\<close>.  \<open>inh\<close> is the sorted sample of inhibitory neurons and \<open>rnd\<close> the
  stream of uniform draws.  The size of the sample is written \<open>np.int(...)\<close>, which is the
  builtin \<open>int\<close> in the numpy releases that still have the name.  \<open>blank_net\<close> gives all attributes their first value in one
  record; the source assigns the SFA parameters after \<open>generate_connections\<close>, which
  does not read them.  The attributes that exist only after the first \<open>run_model\<close> with \<open>keep_data\<close>
  (the recorded series) start empty, and so does \<open>active_syn\<close>.
\<close>

definition blank_net :: "config \<Rightarrow> nat list \<Rightarrow> net" where
  "blank_net c inh =
     (let d = (case c_dim c of (d0, d1, d2) \<Rightarrow>
                 if c_clusters c > 1 then (d0, d1 * c_clusters c, d2) else (d0, d1, d2));
          N = lattice_size d;
          fam = (if c_model c = ''LIF'' \<or> c_model c = ''SOC'' then Some LIF_kernel
                 else if c_model c = ''SFA'' then Some SFA_kernel else None)
      in \<lparr>Vth = c_Vth c, Vr = c_Vr c, Vreset = c_Vth c - c_Vreset c, R_m = c_R c,
          tau = c_tau c, dt = c_dt c, t_now = 0, dim = d, clusters = c_clusters c,
          neuron_num = N, cluster_pr = c_cluster_pr c, ref = c_ref c,
          input_num = c_input_num c, input_t = replicate (c_input_num c) (- 1),
          input_t_syn = replicate (c_input_num c) 0,
          connect_const = c_connect_const c, lamb_in = c_lamb_in c,
          connections = zeros2 N N, input_connections = zeros2 N (c_input_num c),
          tau_psc = c_tau_psc c, lamb = c_lamb c, keep_data = c_keep_data c,
          model_type = c_model c, model = fam, synaptic_current = fam,
          input_current = fam, inh_idx = inh,
          type_array = fold (\<lambda>k ta. ta[k := False]) inh (replicate N True),
          V_syn = c_V_syn c, connections_bool = [], in_connections_bool = [],
          Vk = c_Vk c, gk = c_gk c, alpha = c_alpha c, tauN = c_tauN c, J_syn = c_J c,
          tauRise = c_tauRise c, tauDec = c_tauDec c,
          activity_size = 0, active_syn = [], spikes = [], spikes_in = [],
          spikes_syn = [], spikes_t = [], spikes_t_syn = [], Vs = [], Is = [],
          EPSC = [], n_open = [], Ia = [], active = [], A_act = [], isi = [],
          Vseq = [], spikes_seq = [], EPSC_seq = [], A_seq = [], n_seq = [],
          I_seq = []\<rparr>)"

definition Network :: "config \<Rightarrow> nat list \<Rightarrow> (nat \<Rightarrow> real) \<Rightarrow> error + net" where
  "Network c inh rnd =
     (case generate_connections rnd (blank_net c inh) of
        Inl e \<Rightarrow> Inl e
      | Inr s1 \<Rightarrow>
          Inr (reset_history
                 (s1\<lparr>connections_bool := mask_of (connections s1),
                     in_connections_bool := mask_of (input_connections s1)\<rparr>)))"

section \<open>Neuron models\<close>

text \<open>
  After \<open>reset_history\<close> every per-neuron array has length \<open>neuron_num\<close>, and every store
  of \<open>run_model\<close> into such an array keeps its length; the operations among them are
  written as pointwise maps.  Only \<open>Is\<close> takes the shape of the sum of an injected row and
  \<open>EPSC\<close>, so the operations that read \<open>Is\<close> are written with the indexing and
  broadcasting of numpy.
\<close>

text \<open>\<open>LIF\<close>: the derivative of the active neurons.\<close>

definition LIF :: "net \<Rightarrow> error + real list" where
  "LIF s =
     (case take_idx (Vs s) (active s) of
        Inl e \<Rightarrow> Inl e
      | Inr va \<Rightarrow>
          (case take_idx (Is s) (active s) of
             Inl e \<Rightarrow> Inl e
           | Inr ia \<Rightarrow> Inr (map2 (\<lambda>v i. (Vr s - v + i * R_m s) / tau s) va ia)))"

definition synaptic_current_LIF :: "net \<Rightarrow> real list" where
  "synaptic_current_LIF s =
     map2 (\<lambda>st ty. if st < 0 then 0
                    else exp (- (t_now s - st) / pick (tau_psc s) ty) * heaviside1 (t_now s - st))
       (spikes_t s) (type_array s)"

definition input_current_LIF :: "net \<Rightarrow> real list" where
  "input_current_LIF s =
     map (\<lambda>it. if it < 0 then 0
                else exp (- (t_now s - it) / fst (tau_psc s)) * heaviside1 (t_now s - it))
       (input_t s)"

text \<open>\<open>K_frac\<close>: the gate \<open>time\<close> is \<open>self.t - self.spikes_t <= 1 and self.spikes_t > 0\<close>.\<close>

definition K_gate :: "real \<Rightarrow> real \<Rightarrow> bool" where
  "K_gate tc st = (tc - st \<le> 1 \<and> st > 0)"

definition K_frac :: "net \<Rightarrow> net" where
  "K_frac s =
     s\<lparr>n_open :=
         map2 (\<lambda>nj st. nj - dt s * ((nj / tauN s) - alpha s * (1 - nj) * of_bool (K_gate (t_now s) st)))
           (n_open s) (spikes_t s)\<rparr>"

text \<open>\<open>SFA\<close> updates \<open>n\<close> and \<open>Ia\<close> and returns the derivative of all neurons.\<close>

definition SFA :: "net \<Rightarrow> (error + real list) \<times> net" where
  "SFA s =
     (let s1 = K_frac s;
          s2 = s1\<lparr>Ia := map2 (\<lambda>nj v. gk s1 * nj * (v - Vk s1)) (n_open s1) (Vs s1)\<rparr>
      in case bcast (-) (Is s2) (Ia s2) of
           Inl e \<Rightarrow> (Inl e, s2)
         | Inr x \<Rightarrow>
             (case bcast (+) (map (\<lambda>v. Vr s2 - v) (Vs s2)) (map (\<lambda>y. y * R_m s2) x) of
                Inl e \<Rightarrow> (Inl e, s2)
              | Inr y \<Rightarrow> (Inr (map (\<lambda>z. z / tau s2) y), s2)))"

definition synaptic_current_SFA :: "net \<Rightarrow> real list" where
  "synaptic_current_SFA s =
     map (\<lambda>st. if st < 0 then 0
                else J_syn s * (exp (- (t_now s - st) / tauDec s) - exp (- (t_now s - st) / tauRise s)))
       (spikes_t s)"

definition input_current_SFA :: "net \<Rightarrow> real list" where
  "input_current_SFA s =
     map (\<lambda>it. if it < 0 then 0
                else J_syn s * (exp (- (t_now s - it) / tauDec s) - exp (- (t_now s - it) / tauRise s)))
       (input_t s)"

text \<open>The calls \<open>self.model()\<close>, \<open>self.synaptic_current()\<close> and \<open>self.input_current()\<close>
  through the attributes set by the constructor; an attribute that was never set raises
  AttributeError.\<close>

definition call_model :: "net \<Rightarrow> (error + real list) \<times> net" where
  "call_model s =
     (case model s of
        None \<Rightarrow> (Inl AttributeError, s)
      | Some LIF_kernel \<Rightarrow> (LIF s, s)
      | Some SFA_kernel \<Rightarrow> SFA s)"

definition call_synaptic_current :: "net \<Rightarrow> error + real list" where
  "call_synaptic_current s =
     (case synaptic_current s of
        None \<Rightarrow> Inl AttributeError
      | Some LIF_kernel \<Rightarrow> Inr (synaptic_current_LIF s)
      | Some SFA_kernel \<Rightarrow> Inr (synaptic_current_SFA s))"

definition call_input_current :: "net \<Rightarrow> error + real list" where
  "call_input_current s =
     (case input_current s of
        None \<Rightarrow> Inl AttributeError
      | Some LIF_kernel \<Rightarrow> Inr (input_current_LIF s)
      | Some SFA_kernel \<Rightarrow> Inr (input_current_SFA s))"

section \<open>The simulation loop\<close>

text \<open>
  The body of the loop of \<open>run_model\<close> is split at its statements.  \<open>active_set\<close> is
  lines 253 to 261: the active neurons of this step.
\<close>

definition lif_active :: "net \<Rightarrow> nat list" where
  "lif_active s =
     nonzero (map2 (\<lambda>st ty. t_now s - st > pick (ref s) ty \<or> st = - 1) (spikes_t s) (type_array s))"

definition active_set :: "net \<Rightarrow> net" where
  "active_set s =
     (if model_type s = ''LIF'' then s\<lparr>active := lif_active s\<rparr>
      else if model_type s = ''SFA'' then s\<lparr>active := [0..<neuron_num s]\<rparr>
      else s)"

text \<open>The local variable \<open>active_neurons\<close> is bound only in the two branches above.\<close>

definition active_neurons :: "net \<Rightarrow> nat list option" where
  "active_neurons s =
     (if model_type s = ''LIF'' \<or> model_type s = ''SFA'' then Some (active s) else None)"

text \<open>Lines 263 to 269: the external current \<open>I_cur\<close> of this step, from the row
  \<open>I[i - 1]\<close>.\<close>

definition external_current :: "bool \<Rightarrow> real list \<Rightarrow> real \<Rightarrow> net \<Rightarrow> (error + real list) \<times> net" where
  "external_current input_type row t_cur s =
     (if input_type then
        (case fill_idx (input_t s) (nonzero (map (\<lambda>x. x \<noteq> 0) row)) t_cur of
           Inl e \<Rightarrow> (Inl e, s)
         | Inr it \<Rightarrow>
             (let s1 = s\<lparr>input_t := it\<rparr>
              in case call_input_current s1 of
                   Inl e \<Rightarrow> (Inl e, s1)
                 | Inr ic \<Rightarrow>
                     (Inr (map2 (-) (dot (input_connections s1) ic)
                             (map2 (*) (dot (as_float (in_connections_bool s1)) ic) (Vs s1))),
                      s1)))
      else (Inr row, s))"

text \<open>
  Line 273, \<open>self.Vs[active_neurons] = self.Vs[active_neurons] + self.dt * self.model()\<close>,
  in the order in which Python evaluates it: the name \<open>active_neurons\<close>, the read of
  \<open>Vs\<close>, the call, the sum, the store.
\<close>

definition integrate :: "net \<Rightarrow> error option \<times> net" where
  "integrate s =
     (case active_neurons s of
        None \<Rightarrow> (Some UnboundLocalError, s)
      | Some act \<Rightarrow>
          (case take_idx (Vs s) act of
             Inl e \<Rightarrow> (Some e, s)
           | Inr v0 \<Rightarrow>
               (case call_model s of
                  (Inl e, s1) \<Rightarrow> (Some e, s1)
                | (Inr d, s1) \<Rightarrow>
                    (case bcast (+) v0 (map (\<lambda>x. dt s1 * x) d) of
                       Inl e \<Rightarrow> (Some e, s1)
                     | Inr v1 \<Rightarrow>
                         (case put_idx (Vs s1) act v1 of
                            Inl e \<Rightarrow> (Some e, s1)
                          | Inr vs' \<Rightarrow> (None, s1\<lparr>Vs := vs'\<rparr>))))))"

text \<open>Lines 275 to 280: spike detection, the last-spike times, and the potential of the
  spiking neurons set to 0.\<close>

definition fire :: "real \<Rightarrow> net \<Rightarrow> net" where
  "fire t_cur s =
     (let sp = map (\<lambda>v. v > Vth s) (Vs s)
      in s\<lparr>spikes := sp,
            spikes_t := map2 (\<lambda>b st. if b then t_cur else st) sp (spikes_t s),
            Vs := map2 (\<lambda>b v. if b then 0 else v) sp (Vs s)\<rparr>)"

text \<open>Lines 281 to 285: the recurrent synaptic current.\<close>

definition propagate :: "net \<Rightarrow> error option \<times> net" where
  "propagate s =
     (case call_synaptic_current s of
        Inl e \<Rightarrow> (Some e, s)
      | Inr isyn \<Rightarrow>
          (None,
           s\<lparr>EPSC :=
               (if model_type s = ''SFA''
                then map2 (-) (dot (connections s) isyn)
                       (map2 (*) (dot (as_float (connections_bool s)) isyn) (Vs s))
                else dot (connections s) isyn)\<rparr>))"

text \<open>Lines 287 to 292: column \<open>i\<close> of the recorded series.\<close>

definition record_step :: "nat \<Rightarrow> net \<Rightarrow> net" where
  "record_step i s =
     (if keep_data s
      then s\<lparr>Vseq := set_col (Vseq s) i (Vs s),
             spikes_seq := set_col (spikes_seq s) i (map of_bool (spikes s)),
             EPSC_seq := set_col (EPSC_seq s) i (EPSC s),
             A_seq := set_col (A_seq s) i (A_act s),
             n_seq := set_col (n_seq s) i (n_open s)\<rparr>
      else s)"

text \<open>Line 293: \<open>self.Vs[self.spikes] = self.Vreset\<close>.\<close>

definition settle :: "net \<Rightarrow> net" where
  "settle s = s\<lparr>Vs := map2 (\<lambda>b v. if b then Vreset s else v) (spikes s) (Vs s)\<rparr>"

text \<open>Lines 275 to 296, the iteration from the spike detection on; it ends with
  \<open>self.Is = I_cur + self.EPSC\<close>.\<close>

definition finish_step :: "nat \<Rightarrow> real \<Rightarrow> real list \<Rightarrow> net \<Rightarrow> error option \<times> net" where
  "finish_step i t_cur I_cur s3 =
     (case propagate (fire t_cur s3) of
        (Some e, s4) \<Rightarrow> (Some e, s4)
      | (None, s4) \<Rightarrow>
          (let s5 = settle (record_step i s4)
           in case bcast (+) I_cur (EPSC s5) of
                Inl e \<Rightarrow> (Some e, s5)
              | Inr v \<Rightarrow> (None, s5\<lparr>Is := v\<rparr>)))"

text \<open>One iteration, for the pair \<open>(i, t_cur)\<close> of the enumeration.\<close>

definition step :: "bool \<Rightarrow> real list list \<Rightarrow> nat \<times> real \<Rightarrow> net \<Rightarrow> error option \<times> net" where
  "step input_type I it s =
     (case it of (i, t_cur) \<Rightarrow>
        (let s1 = active_set (s\<lparr>t_now := t_cur\<rparr>)
         in case external_current input_type (I ! (i - 1)) t_cur s1 of
              (Inl e, s2) \<Rightarrow> (Some e, s2)
            | (Inr I_cur, s2) \<Rightarrow>
                (case integrate s2 of
                   (Some e, s3) \<Rightarrow> (Some e, s3)
                 | (None, s3) \<Rightarrow> finish_step i t_cur I_cur s3)))"

text \<open>The loop: an exception ends the run and leaves the object as it is.\<close>

fun run_steps :: "bool \<Rightarrow> real list list \<Rightarrow> (nat \<times> real) list \<Rightarrow> net \<Rightarrow> error option \<times> net" where
  "run_steps input_type I [] s = (None, s)"
| "run_steps input_type I (it # its) s =
     (case step input_type I it s of
        (Some e, s') \<Rightarrow> (Some e, s')
      | (None, s') \<Rightarrow> run_steps input_type I its s')"

text \<open>Lines 236 to 247: the reset and the allocation of the recorded series.\<close>

definition start_run :: "net \<Rightarrow> real list list \<Rightarrow> net" where
  "start_run s I =
     (let s0 = reset_history s; T = length I
      in if keep_data s0
         then s0\<lparr>Vseq := set_col (zeros2 (neuron_num s0) (T + 1)) 0 (Vs s0),
                 spikes_seq := zeros2 (neuron_num s0) (T + 1),
                 EPSC_seq := zeros2 (neuron_num s0) (T + 1),
                 A_seq := zeros2 (activity_size s0) (T + 1),
                 n_seq := zeros2 (neuron_num s0) (T + 1),
                 I_seq := I\<rparr>
         else s0)"

text \<open>\<open>enumerate(np.linspace(self.dt, t * self.dt, t), start=1)\<close> for \<open>t = I.shape[0]\<close>.\<close>

definition schedule :: "net \<Rightarrow> nat \<Rightarrow> (nat \<times> real) list" where
  "schedule s T = zip [1..<Suc T] (linspace (dt s) (real T * dt s) T)"

definition run_model :: "net \<Rightarrow> real list list \<Rightarrow> bool \<Rightarrow> error option \<times> net" where
  "run_model s I input_type =
     run_steps input_type I (schedule s (length I)) (start_run s I)"


text \<open>The number of iterations of the loop that ran to their end.\<close>

fun steps_done :: "bool \<Rightarrow> real list list \<Rightarrow> (nat \<times> real) list \<Rightarrow> net \<Rightarrow> nat" where
  "steps_done input_type I [] s = 0"
| "steps_done input_type I (it # its) s =
     (case step input_type I it s of
        (Some e, s') \<Rightarrow> 0
      | (None, s') \<Rightarrow> Suc (steps_done input_type I its s'))"

definition iterations :: "net \<Rightarrow> real list list \<Rightarrow> bool \<Rightarrow> nat" where
  "iterations s I input_type =
     steps_done input_type I (schedule s (length I)) (start_run s I)"

text \<open>The object after a sequence of calls of \<open>run_model\<close>, whether they raised or not.\<close>

fun runs :: "net \<Rightarrow> (real list list \<times> bool) list \<Rightarrow> net" where
  "runs s [] = s"
| "runs s (call # calls) = runs (snd (run_model s (fst call) (snd call))) calls"

section \<open>Local field potential\<close>

text \<open>\<open>np.arctan2(y, x)\<close>.\<close>

definition arctan2 :: "real \<Rightarrow> real \<Rightarrow> real" where
  "arctan2 y x =
     (if x > 0 then arctan (y / x)
      else if x < 0 \<and> y \<ge> 0 then arctan (y / x) + pi
      else if x < 0 then arctan (y / x) - pi
      else if y > 0 then pi / 2
      else if y < 0 then - pi / 2
      else 0)"

text \<open>\<open>get_r\<close>: radius, angle and a zero, each an array of one element.\<close>

definition get_r :: "real \<Rightarrow> real \<Rightarrow> real \<times> real \<times> real" where
  "get_r x y = (sqrt (x\<^sup>2 + y\<^sup>2), arctan2 y x, 0)"

definition calc_dist :: "real \<times> real \<times> real \<Rightarrow> real \<times> real \<times> real \<Rightarrow> real" where
  "calc_dist r1 r2 =
     sqrt ((fst r1)\<^sup>2 + (fst r2)\<^sup>2 - fst r1 * fst r2 * cos (fst (snd r1) - fst (snd r2)))"

text \<open>
  A float division of numpy does not raise: a zero divisor gives \<open>inf\<close> or \<open>nan\<close>.  A
  non-finite value is \<open>None\<close>, and it stays non-finite under the additions and the
  division that follow.
\<close>

definition fdiv :: "real \<Rightarrow> real \<Rightarrow> real option" where
  "fdiv a b = (if b = 0 then None else Some (a / b))"

text \<open>The accumulator \<open>phi\<close> is the Python integer \<open>0\<close> until a first term is added and a
  numpy array from then on.\<close>

datatype phi_val = Py_zero | Arr "real option"

definition add_phi :: "phi_val \<Rightarrow> real option \<Rightarrow> phi_val" where
  "add_phi phi x =
     (case phi of
        Py_zero \<Rightarrow> Arr x
      | Arr a \<Rightarrow> Arr (case a of None \<Rightarrow> None | Some u \<Rightarrow> (case x of None \<Rightarrow> None | Some v \<Rightarrow> Some (u + v))))"

text \<open>The body of the loop of \<open>get_phi\<close> for channel \<open>i\<close>.\<close>

definition phi_term ::
  "net \<Rightarrow> real \<times> real \<times> real \<Rightarrow> nat \<Rightarrow> real \<Rightarrow> nat \<times> real list \<Rightarrow> phi_val \<Rightarrow> error + phi_val" where
  "phi_term s r t sigma ich phi =
     (case ich of (i, channel) \<Rightarrow>
        (case get_pos s i of
           Inl e \<Rightarrow> Inl e
         | Inr (z, x, y) \<Rightarrow>
             (let r0 = get_r (real x) (real y)
              in if r \<noteq> r0
                 then (let dist = calc_dist r r0
                       in if t < length channel
                          then Inr (add_phi phi (fdiv (channel ! t) (dist * (4 * pi * sigma))))
                          else Inl IndexError)
                 else Inr phi)))"

text \<open>\<open>get_phi\<close>; the parameter \<open>dim\<close> of the source is not used by it.  The last line
  divides by \<open>SPC.shape[0] - 1\<close>: with the Python integer \<open>0\<close> on the left and a single
  channel it raises ZeroDivisionError.\<close>

definition get_phi ::
  "net \<Rightarrow> real list list \<Rightarrow> real \<times> real \<times> real \<Rightarrow> nat \<Rightarrow> real \<Rightarrow> error + real option" where
  "get_phi s SPC r t sigma =
     (case foldE (phi_term s r t sigma) (zip [0..<length SPC] SPC) Py_zero of
        Inl e \<Rightarrow> Inl e
      | Inr Py_zero \<Rightarrow> (if length SPC = 1 then Inl ZeroDivisionError else Inr (Some 0))
      | Inr (Arr None) \<Rightarrow> Inr None
      | Inr (Arr (Some v)) \<Rightarrow> Inr (fdiv v (real (length SPC) - 1)))"

text \<open>The distance of two points in polar coordinates by the law of cosines.\<close>

definition law_of_cosines :: "real \<times> real \<times> real \<Rightarrow> real \<times> real \<times> real \<Rightarrow> real" where
  "law_of_cosines r1 r2 =
     sqrt ((fst r1)\<^sup>2 + (fst r2)\<^sup>2 - 2 * fst r1 * fst r2 * cos (fst (snd r1) - fst (snd r2)))"


section \<open>The default configuration\<close>

text \<open>The default arguments of the constructor, and the same network on a lattice of two
  neurons.\<close>

definition V_syn_default :: "bool \<times> bool \<rightharpoonup> real" where
  "V_syn_default =
     [(True, True) \<mapsto> 5, (True, False) \<mapsto> 25, (False, True) \<mapsto> - 20, (False, False) \<mapsto> - 20]"

definition connect_const_default :: "bool \<times> bool \<rightharpoonup> real" where
  "connect_const_default =
     [(True, True) \<mapsto> 3 / 10, (True, False) \<mapsto> 2 / 10, (False, True) \<mapsto> 4 / 10,
      (False, False) \<mapsto> 1 / 10]"

definition default_config :: config where
  "default_config =
     \<lparr>c_model = ''LIF'', c_dim = (15, 3, 3), c_Vreset = 5, c_R = 1, c_tau = 30, c_Vr = 0,
      c_Vth = 15, c_lamb = 2, c_ref = (2, 3), c_lamb_in = 2, c_tau_psc = (6, 3),
      c_keep_data = True, c_dt = 1 / 100, c_tauRise = 1, c_tauDec = 65 / 10,
      c_Vk = - 606 / 10, c_gk = 10, c_alpha = 2 / 100, c_tauN = 230, c_J = 615 / 10000,
      c_input_num = 1, c_clusters = 1, c_cluster_pr = 1 / 10,
      c_V_syn = V_syn_default, c_connect_const = connect_const_default\<rparr>"

definition small_config :: config where
  "small_config = default_config\<lparr>c_dim := (1, 2, 1)\<rparr>"


text \<open>A stream of uniform draws that are all \<open>0\<close>.\<close>

definition zero_draws :: "nat \<Rightarrow> real" where
  "zero_draws k = 0"

text \<open>The network that the constructor builds from \<open>small_config\<close> when neuron 0 is the
  inhibitory sample and every uniform draw is \<open>0\<close>, so that every candidate edge with a
  positive probability is made.\<close>

definition small_net :: net where
  "small_net =
     \<lparr>Vth = 15, Vr = 0, Vreset = 10, R_m = 1, tau = 30, dt = 1 / 100, t_now = 0,
      dim = (1, 2, 1), clusters = 1, neuron_num = 2, cluster_pr = 1 / 10, ref = (2, 3),
      input_num = 1, input_t = [- 1], input_t_syn = [0],
      connect_const = connect_const_default, lamb_in = 2,
      connections = [[0, - 20], [25, 0]], input_connections = [[- 20], [5]],
      tau_psc = (6, 3), lamb = 2, keep_data = True, model_type = ''LIF'',
      model = Some LIF_kernel, synaptic_current = Some LIF_kernel,
      input_current = Some LIF_kernel, inh_idx = [0], type_array = [False, True],
      V_syn = V_syn_default,
      connections_bool = [[False, True], [True, False]],
      in_connections_bool = [[True], [True]],
      Vk = - 606 / 10, gk = 10, alpha = 2 / 100, tauN = 230, J_syn = 615 / 10000,
      tauRise = 1, tauDec = 65 / 10,
      activity_size = 2, active_syn = [], spikes = [False, False], spikes_in = [0],
      spikes_syn = [0, 0], spikes_t = [- 1, - 1], spikes_t_syn = [- 1, - 1],
      Vs = [0, 0], Is = [0, 0], EPSC = [0, 0], n_open = [0, 0], Ia = [0, 0],
      active = [0, 0], A_act = [0, 0], isi = [],
      Vseq = [], spikes_seq = [], EPSC_seq = [], A_seq = [], n_seq = [], I_seq = []\<rparr>"

text \<open>The same network with the model \<open>SFA\<close>.\<close>

definition sfa_config :: config where
  "sfa_config = small_config\<lparr>c_model := ''SFA''\<rparr>"

definition sfa_net :: net where
  "sfa_net = small_net\<lparr>model_type := ''SFA'', model := Some SFA_kernel,
                synaptic_current := Some SFA_kernel, input_current := Some SFA_kernel\<rparr>"

text \<open>The adapting network with the step \<open>dt = 1\<close>, so that the window of one time unit
  after a spike lasts one step, and the same with the time constant \<open>tauN = 1 / 4\<close>
  below that step.\<close>

definition coarse_config :: config where
  "coarse_config = sfa_config\<lparr>c_dt := 1\<rparr>"

definition coarse_net :: net where
  "coarse_net = sfa_net\<lparr>dt := 1\<rparr>"

definition short_config :: config where
  "short_config = sfa_config\<lparr>c_dt := 1, c_tauN := 1 / 4\<rparr>"

definition short_net :: net where
  "short_net = sfa_net\<lparr>dt := 1, tauN := 1 / 4\<rparr>"

section \<open>Shapes and invariants\<close>

definition mat_shape :: "nat \<Rightarrow> nat \<Rightarrow> 'a list list \<Rightarrow> bool" where
  "mat_shape r c M = (length M = r \<and> list_all (\<lambda>row. length row = c) M)"

text \<open>What the constructor establishes and no method changes: the shapes of the topology,
  the cached masks, and the wiring of the three methods.\<close>

definition wf_net :: "net \<Rightarrow> bool" where
  "wf_net s =
     (length (type_array s) = neuron_num s
      \<and> mat_shape (neuron_num s) (neuron_num s) (connections s)
      \<and> mat_shape (neuron_num s) (input_num s) (input_connections s)
      \<and> connections_bool s = mask_of (connections s)
      \<and> in_connections_bool s = mask_of (input_connections s)
      \<and> length (input_t s) = input_num s
      \<and> model s = (if model_type s = ''LIF'' \<or> model_type s = ''SOC'' then Some LIF_kernel
                    else if model_type s = ''SFA'' then Some SFA_kernel else None)
      \<and> synaptic_current s = model s
      \<and> input_current s = model s)"

text \<open>The attributes that are assigned by the constructor only.\<close>

definition static :: "net \<Rightarrow>
   (real \<times> real \<times> real \<times> real \<times> real \<times> real) \<times>
   ((nat \<times> nat \<times> nat) \<times> nat \<times> nat \<times> real \<times> (real \<times> real) \<times> nat) \<times>
   ((bool \<times> bool \<rightharpoonup> real) \<times> real \<times> real list list \<times> real list list \<times> (real \<times> real) \<times> real) \<times>
   (bool \<times> string \<times> kernel option \<times> kernel option \<times> kernel option \<times> nat list) \<times>
   ((bool \<times> bool \<rightharpoonup> real) \<times> bool list list \<times> bool list list) \<times>
   (real \<times> real \<times> real \<times> real \<times> real \<times> real \<times> real)" where
  "static s =
     ((Vth s, Vr s, Vreset s, R_m s, tau s, dt s),
      (dim s, clusters s, neuron_num s, cluster_pr s, ref s, input_num s),
      (connect_const s, lamb_in s, connections s, input_connections s, tau_psc s, lamb s),
      (keep_data s, model_type s, model s, synaptic_current s, input_current s, inh_idx s),
      (V_syn s, connections_bool s, in_connections_bool s),
      (Vk s, gk s, alpha s, tauN s, J_syn s, tauRise s, tauDec s))"

definition same_frame :: "net \<Rightarrow> net \<Rightarrow> bool" where
  "same_frame s s' =
     (static s' = static s
      \<and> length (type_array s') = length (type_array s)
      \<and> length (input_t s') = length (input_t s))"

text \<open>The shapes of the per-run arrays during a run of \<open>T\<close> steps, but for \<open>Is\<close>,
  whose shape follows the injected rows.\<close>

definition run_inv :: "nat \<Rightarrow> net \<Rightarrow> bool" where
  "run_inv T s =
     (length (Vs s) = neuron_num s
      \<and> length (spikes_t s) = neuron_num s
      \<and> length (spikes s) = neuron_num s
      \<and> length (n_open s) = neuron_num s
      \<and> length (Ia s) = neuron_num s
      \<and> length (EPSC s) = neuron_num s
      \<and> length (A_act s) = activity_size s
      \<and> (keep_data s \<longrightarrow>
            mat_shape (neuron_num s) (T + 1) (Vseq s)
          \<and> mat_shape (neuron_num s) (T + 1) (spikes_seq s)
          \<and> mat_shape (neuron_num s) (T + 1) (EPSC_seq s)
          \<and> mat_shape (activity_size s) (T + 1) (A_seq s)
          \<and> mat_shape (neuron_num s) (T + 1) (n_seq s)))"

text \<open>An injected array whose rows have one entry per neuron (currents) or one per input
  channel (spike events).\<close>

definition conforming :: "net \<Rightarrow> real list list \<Rightarrow> bool \<Rightarrow> bool" where
  "conforming s I input_type =
     list_all (\<lambda>row. length row = (if input_type then input_num s else neuron_num s)) I"

text \<open>An injected array that numpy accepts in every iteration: with currents also a row
  of a single entry, which is broadcast over the neurons.\<close>

definition row_ok :: "net \<Rightarrow> bool \<Rightarrow> real list \<Rightarrow> bool" where
  "row_ok s input_type row =
     (if input_type then length row = input_num s
      else length row = neuron_num s \<or> length row = 1)"

definition broadcastable :: "net \<Rightarrow> real list list \<Rightarrow> bool \<Rightarrow> bool" where
  "broadcastable s I input_type = list_all (row_ok s input_type) I"

text \<open>The run after its first \<open>k\<close> iterations: the state in which iteration \<open>k + 1\<close>
  starts.\<close>

definition after_steps :: "net \<Rightarrow> real list list \<Rightarrow> bool \<Rightarrow> nat \<Rightarrow> error option \<times> net" where
  "after_steps s I input_type k =
     run_steps input_type I (take k (schedule s (length I))) (start_run s I)"

text \<open>The state of a network at rest that has never spiked, in a run of \<open>T\<close> steps.\<close>

definition quiet :: "nat \<Rightarrow> net \<Rightarrow> bool" where
  "quiet T s =
     (Vs s = replicate (neuron_num s) (Vr s)
      \<and> spikes_t s = replicate (neuron_num s) (- 1)
      \<and> spikes s = replicate (neuron_num s) False
      \<and> EPSC s = replicate (neuron_num s) 0
      \<and> Is s = replicate (neuron_num s) 0
      \<and> synaptic_current_LIF s = replicate (neuron_num s) 0
      \<and> (keep_data s \<longrightarrow> spikes_seq s = zeros2 (neuron_num s) (Suc T)))"

text \<open>Every last-spike time is the sentinel or a positive time up to \<open>\<tau>\<close>.\<close>

definition spike_times_ok :: "real \<Rightarrow> net \<Rightarrow> bool" where
  "spike_times_ok \<tau> s = list_all (\<lambda>st. st = - 1 \<or> (0 < st \<and> st \<le> \<tau>)) (spikes_t s)"

text \<open>An injected array that drives neuron 0 of the small network over the threshold in
  the second step.\<close>

definition spike_input :: "real list list" where
  "spike_input = [[60000, 0], [0, 0], [0, 0]]"

text \<open>An injected array that drives neuron 1 over the threshold in the second step and
  neuron 0 in the third.\<close>

definition relay_input :: "real list list" where
  "relay_input = [[0, 60000], [60000, 0], [0, 0]]"

text \<open>An injected array that, with \<open>dt = 1\<close>, drives neuron 0 over the threshold in the
  second step and is zero afterwards.\<close>

definition kick_input :: "real list list" where
  "kick_input = [[600, 0], [0, 0], [0, 0], [0, 0]]"

text \<open>The loop invariants of \<open>generate_connections\<close>.\<close>

definition input_inv :: "net \<Rightarrow> nat \<Rightarrow> nat \<Rightarrow> real list list \<Rightarrow> bool" where
  "input_inv s N K M =
     (mat_shape N K M \<and>
      (\<forall>j<N. \<forall>i<K. M ! j ! i = 0 \<or> V_syn s (excitatory s j, True) = Some (M ! j ! i)))"

definition neuron_inv :: "net \<Rightarrow> nat \<Rightarrow> real list list \<Rightarrow> bool" where
  "neuron_inv s N M =
     (mat_shape N N M \<and> (\<forall>i<N. M ! i ! i = 0) \<and>
      (\<forall>i<N. \<forall>j<N. M ! i ! j = 0 \<or> V_syn s (excitatory s i, excitatory s j) = Some (M ! i ! j)))"

text \<open>The store \<open>xs[idx] = vals\<close> of \<open>put_idx\<close> when the shapes agree.\<close>

definition put :: "real list \<Rightarrow> nat list \<Rightarrow> real list \<Rightarrow> real list" where
  "put xs idx vals = fold (\<lambda>kv acc. acc[fst kv := snd kv]) (zip idx vals) xs"

section \<open>Loops that can raise\<close>

lemma foldE_inv:
  assumes "foldE f xs acc = Inr r" and "P acc"
    and "\<And>x a a'. x \<in> set xs \<Longrightarrow> P a \<Longrightarrow> f x a = Inr a' \<Longrightarrow> P a'"
  shows "P r"
  using assms
proof (induction xs arbitrary: acc)
  case Nil
  then show ?case by simp
next
  case (Cons x xs)
  from Cons.prems(1) obtain a' where fx: "f x acc = Inr a'" and rest: "foldE f xs a' = Inr r"
    by (auto split: sum.splits)
  have pa: "P a'" using Cons.prems(3)[of x acc a'] Cons.prems(2) fx by simp
  show ?case
    by (rule Cons.IH[OF rest pa]) (use Cons.prems(3) in auto)
qed

lemma foldE_total:
  assumes "P acc"
    and "\<And>x a. x \<in> set xs \<Longrightarrow> P a \<Longrightarrow> \<exists>a'. f x a = Inr a' \<and> P a'"
  shows "\<exists>r. foldE f xs acc = Inr r \<and> P r"
  using assms
proof (induction xs arbitrary: acc)
  case Nil
  then show ?case by simp
next
  case (Cons x xs)
  from Cons.prems(2)[of x acc] Cons.prems(1) obtain a' where fx: "f x acc = Inr a'" and pa: "P a'"
    by auto
  have "\<exists>r. foldE f xs a' = Inr r \<and> P r"
    by (rule Cons.IH[OF pa]) (use Cons.prems(2) in auto)
  then show ?case using fx by simp
qed

section \<open>Matrices\<close>

lemma mat_shape_zeros2: "mat_shape r c (zeros2 r c)"
  by (simp add: mat_shape_def zeros2_def list_all_length)

lemma mat_shape_row: "mat_shape r c M \<Longrightarrow> i < r \<Longrightarrow> length (M ! i) = c"
  by (simp add: mat_shape_def list_all_length)

lemma mat_shape_set_entry: "mat_shape r c M \<Longrightarrow> mat_shape r c (set_entry M i j v)"
  unfolding mat_shape_def set_entry_def list_all_length
  by (cases "i < length M") (auto simp: nth_list_update)

lemma set_entry_nth:
  "mat_shape r c M \<Longrightarrow> i < r \<Longrightarrow> j < c \<Longrightarrow> i' < r \<Longrightarrow> j' < c \<Longrightarrow>
   set_entry M i j v ! i' ! j' = (if i' = i \<and> j' = j then v else M ! i' ! j')"
  by (auto simp: mat_shape_def set_entry_def list_all_length nth_list_update)

lemma zeros2_nth: "i < r \<Longrightarrow> j < c \<Longrightarrow> zeros2 r c ! i ! j = 0"
  by (simp add: zeros2_def)

lemma mat_shape_mask_of: "mat_shape r c M \<Longrightarrow> mat_shape r c (mask_of M)"
  by (simp add: mat_shape_def mask_of_def list_all_length)

lemma length_fold_update: "length (fold (\<lambda>k ta. ta[k := v]) ks xs) = length xs"
  by (induction ks arbitrary: xs) auto

section \<open>The loops of the topology generator\<close>

lemma input_edge_cases:
  assumes "input_edge rnd s (i, j) (M, k) = Inr (M', k')"
  shows "M' = M \<or> (\<exists>w. V_syn s (excitatory s j, True) = Some w \<and> M' = set_entry M j i w)"
  using assms
  by (auto simp: input_edge_def lookup_def Let_def split: sum.splits if_splits option.splits)

lemma neuron_edge_cases:
  assumes "neuron_edge rnd s (i, j) (M, k) = Inr (M', k')"
  shows "M' = M \<or> (i \<noteq> j \<and> (\<exists>w. V_syn s (excitatory s i, excitatory s j) = Some w \<and> M' = set_entry M i j w))"
  using assms
  by (auto simp: neuron_edge_def lookup_def Let_def split: sum.splits if_splits option.splits)

lemma input_inv_zeros: "input_inv s N K (zeros2 N K)"
  by (simp add: input_inv_def mat_shape_zeros2 zeros2_nth)

lemma neuron_inv_zeros: "neuron_inv s N (zeros2 N N)"
  by (simp add: neuron_inv_def mat_shape_zeros2 zeros2_nth)

lemma input_inv_step:
  assumes "input_inv s N K M" "input_edge rnd s (i, j) (M, k) = Inr (M', k')" "i < K" "j < N"
  shows "input_inv s N K M'"
proof -
  from input_edge_cases[OF assms(2)]
  consider "M' = M" | w where "V_syn s (excitatory s j, True) = Some w" "M' = set_entry M j i w"
    by blast
  then show ?thesis
  proof cases
    case 1
    then show ?thesis using assms(1) by simp
  next
    case 2
    have sh: "mat_shape N K M" using assms(1) by (simp add: input_inv_def)
    show ?thesis
      unfolding input_inv_def
      using assms(1,3,4) 2 sh
      by (auto simp: mat_shape_set_entry set_entry_nth[OF sh] input_inv_def)
  qed
qed

lemma neuron_inv_step:
  assumes "neuron_inv s N M" "neuron_edge rnd s (i, j) (M, k) = Inr (M', k')" "i < N" "j < N"
  shows "neuron_inv s N M'"
proof -
  from neuron_edge_cases[OF assms(2)]
  consider "M' = M"
    | w where "i \<noteq> j" "V_syn s (excitatory s i, excitatory s j) = Some w" "M' = set_entry M i j w"
    by blast
  then show ?thesis
  proof cases
    case 1
    then show ?thesis using assms(1) by simp
  next
    case 2
    have sh: "mat_shape N N M" using assms(1) by (simp add: neuron_inv_def)
    show ?thesis
      unfolding neuron_inv_def
      using assms(1,3,4) 2 sh
      by (auto simp: mat_shape_set_entry set_entry_nth[OF sh] neuron_inv_def)
  qed
qed

lemma input_loop_inv:
  assumes "foldE (input_edge rnd s) xs (M0, k0) = Inr (M, k)"
    and "input_inv s N K M0"
    and "\<forall>x\<in>set xs. fst x < K \<and> snd x < N"
  shows "input_inv s N K M"
proof -
  have "(\<lambda>st. input_inv s N K (fst st)) (M, k)"
  proof (rule foldE_inv[OF assms(1)])
    show "input_inv s N K (fst (M0, k0))" using assms(2) by simp
  next
    fix x a a'
    assume "x \<in> set xs" "input_inv s N K (fst a)" "input_edge rnd s x a = Inr a'"
    then show "input_inv s N K (fst a')"
      using input_inv_step[of s N K "fst a" rnd "fst x" "snd x" "snd a" "fst a'" "snd a'"] assms(3)
      by auto
  qed
  then show ?thesis by simp
qed

lemma neuron_loop_inv:
  assumes "foldE (neuron_edge rnd s) xs (M0, k0) = Inr (M, k)"
    and "neuron_inv s N M0"
    and "\<forall>x\<in>set xs. fst x < N \<and> snd x < N"
  shows "neuron_inv s N M"
proof -
  have "(\<lambda>st. neuron_inv s N (fst st)) (M, k)"
  proof (rule foldE_inv[OF assms(1)])
    show "neuron_inv s N (fst (M0, k0))" using assms(2) by simp
  next
    fix x a a'
    assume "x \<in> set xs" "neuron_inv s N (fst a)" "neuron_edge rnd s x a = Inr a'"
    then show "neuron_inv s N (fst a')"
      using neuron_inv_step[of s N "fst a" rnd "fst x" "snd x" "snd a" "fst a'" "snd a'"] assms(3)
      by auto
  qed
  then show ?thesis by simp
qed

lemma generate_connections_Inr:
  assumes "generate_connections rnd s = Inr s'"
    and "input_inv s (neuron_num s) (input_num s) (input_connections s)"
    and "neuron_inv s (neuron_num s) (connections s)"
  shows "\<exists>M_in M_c. s' = s\<lparr>input_connections := M_in, connections := M_c\<rparr>
           \<and> input_inv s (neuron_num s) (input_num s) M_in
           \<and> neuron_inv s (neuron_num s) M_c"
proof -
  from assms(1) obtain M_in k M_c k2 where
    f1: "foldE (input_edge rnd s) (List.product [0..<input_num s] [0..<neuron_num s div clusters s])
           (input_connections s, 0) = Inr (M_in, k)" and
    f2: "foldE (neuron_edge rnd s) (List.product [0..<neuron_num s] [0..<neuron_num s])
           (connections s, k) = Inr (M_c, k2)" and
    s': "s' = s\<lparr>input_connections := M_in, connections := M_c\<rparr>"
    by (auto simp: generate_connections_def split: sum.splits prod.splits)
  have le: "neuron_num s div clusters s \<le> neuron_num s"
    by (rule div_le_dividend)
  have i1: "input_inv s (neuron_num s) (input_num s) M_in"
    by (rule input_loop_inv[OF f1 assms(2)]) (auto intro: less_le_trans[OF _ le])
  have i2: "neuron_inv s (neuron_num s) M_c"
    by (rule neuron_loop_inv[OF f2 assms(3)]) auto
  show ?thesis using s' i1 i2 by blast
qed

section \<open>The small network\<close>

lemma Network_small: "Network small_config [0] zero_draws = Inr small_net"
  by (simp add: Network_def blank_net_def small_config_def default_config_def Let_def lattice_size_def generate_connections_def
     zeros2_def input_edge_def neuron_edge_def get_pos_def unravel_def edge_drawn_def connect_pr_def lookup_def excitatory_def
     V_syn_default_def connect_const_default_def set_entry_def mid_of_def cluster_of_def zero_less_mult_iff
     reset_history_def mask_of_def eval_nat_numeral small_net_def zero_draws_def)

section \<open>Attributes that a run does not assign\<close>

lemma same_frame_refl: "same_frame s s"
  by (simp add: same_frame_def)

lemma same_frame_trans: "same_frame s s' \<Longrightarrow> same_frame s' s'' \<Longrightarrow> same_frame s s''"
  by (simp add: same_frame_def)

lemma same_frame_reset: "same_frame s (reset_history s)"
  by (simp add: same_frame_def static_def reset_history_def Let_def length_fold_update)

lemma same_frame_start_run: "same_frame s (start_run s I)"
  by (simp add: same_frame_def static_def start_run_def reset_history_def Let_def length_fold_update)

lemma same_frame_active_set: "same_frame s (active_set (s\<lparr>t_now := tc\<rparr>))"
  by (simp add: same_frame_def static_def active_set_def)

lemma length_fill_idx: "fill_idx xs idx v = Inr ys \<Longrightarrow> length ys = length xs"
  by (auto simp: fill_idx_def length_fold_update split: if_splits)

lemma same_frame_external_current:
  "external_current ty row tc s = (r, s') \<Longrightarrow> same_frame s s'"
  by (auto simp: external_current_def same_frame_def static_def Let_def
      dest: length_fill_idx split: if_splits sum.splits)

lemma same_frame_K_frac: "same_frame s (K_frac s)"
  by (simp add: same_frame_def static_def K_frac_def)

lemma same_frame_SFA: "SFA s = (r, s') \<Longrightarrow> same_frame s s'"
  by (auto simp: SFA_def same_frame_def static_def K_frac_def Let_def split: sum.splits)

lemma same_frame_call_model: "call_model s = (r, s') \<Longrightarrow> same_frame s s'"
  by (auto simp: call_model_def same_frame_refl dest: same_frame_SFA
      split: option.splits kernel.splits)

lemma same_frame_integrate: "integrate s = (r, s') \<Longrightarrow> same_frame s s'"
  by (auto simp: integrate_def same_frame_refl same_frame_def static_def
      dest!: same_frame_call_model split: option.splits sum.splits prod.splits)

lemma same_frame_fire: "same_frame s (fire tc s)"
  by (simp add: same_frame_def static_def fire_def Let_def)

lemma same_frame_propagate: "propagate s = (r, s') \<Longrightarrow> same_frame s s'"
  by (auto simp: propagate_def same_frame_def static_def split: sum.splits)

lemma same_frame_record_step: "same_frame s (record_step i s)"
  by (simp add: same_frame_def static_def record_step_def)

lemma same_frame_settle: "same_frame s (settle s)"
  by (simp add: same_frame_def static_def settle_def)

lemma same_frame_Is: "same_frame s (s\<lparr>Is := v\<rparr>)"
  by (simp add: same_frame_def static_def)

lemma same_frame_finish_step:
  assumes "finish_step i tc I_cur s = (r, s')"
  shows "same_frame s s'"
proof -
  obtain z s4 where pr: "propagate (fire tc s) = (z, s4)" by (cases "propagate (fire tc s)")
  have f4: "same_frame s s4"
    using same_frame_trans[OF same_frame_fire same_frame_propagate[OF pr]] .
  have f5: "same_frame s (settle (record_step i s4))"
    using same_frame_trans[OF f4 same_frame_trans[OF same_frame_record_step same_frame_settle]] .
  show ?thesis
  proof (cases z)
    case (Some e)
    then show ?thesis using assms f4 pr by (simp add: finish_step_def)
  next
    case None
    show ?thesis
      using assms f5 pr None same_frame_trans[OF f5 same_frame_Is]
      by (auto simp: finish_step_def Let_def split: sum.splits)
  qed
qed

lemma same_frame_step:
  assumes "step ty I it s = (r, s')"
  shows "same_frame s s'"
proof -
  obtain i tc where it: "it = (i, tc)" by (cases it)
  define s1 where "s1 = active_set (s\<lparr>t_now := tc\<rparr>)"
  have f1: "same_frame s s1" unfolding s1_def by (rule same_frame_active_set)
  obtain x s2 where ec: "external_current ty (I ! (i - 1)) tc s1 = (x, s2)"
    by (cases "external_current ty (I ! (i - 1)) tc s1")
  have f2: "same_frame s s2"
    using same_frame_trans[OF f1 same_frame_external_current[OF ec]] .
  show ?thesis
  proof (cases x)
    case (Inl e)
    then show ?thesis using assms f2 ec by (simp add: step_def it s1_def[symmetric])
  next
    case (Inr I_cur)
    obtain y s3 where ig: "integrate s2 = (y, s3)" by (cases "integrate s2")
    have f3: "same_frame s s3" using same_frame_trans[OF f2 same_frame_integrate[OF ig]] .
    show ?thesis
    proof (cases y)
      case (Some e)
      then show ?thesis using assms f3 ec ig Inr by (simp add: step_def it s1_def[symmetric])
    next
      case None
      then have "finish_step i tc I_cur s3 = (r, s')"
        using assms ec ig Inr by (simp add: step_def it s1_def[symmetric])
      from same_frame_trans[OF f3 same_frame_finish_step[OF this]] show ?thesis .
    qed
  qed
qed

lemma same_frame_run_steps: "run_steps ty I its s = (r, s') \<Longrightarrow> same_frame s s'"
proof (induction its arbitrary: s)
  case Nil
  then show ?case by (simp add: same_frame_refl)
next
  case (Cons it its)
  obtain y s1 where st: "step ty I it s = (y, s1)" by (cases "step ty I it s")
  have f: "same_frame s s1" by (rule same_frame_step[OF st])
  show ?case
  proof (cases y)
    case None
    then have "run_steps ty I its s1 = (r, s')" using Cons.prems st by simp
    from same_frame_trans[OF f Cons.IH[OF this]] show ?thesis .
  next
    case (Some e)
    then show ?thesis using Cons.prems st f by simp
  qed
qed

lemma same_frame_run_model: "same_frame s (snd (run_model s I ty))"
proof -
  obtain r s' where rm: "run_model s I ty = (r, s')" by (cases "run_model s I ty")
  then have "run_steps ty I (schedule s (length I)) (start_run s I) = (r, s')"
    by (simp add: run_model_def)
  from same_frame_trans[OF same_frame_start_run same_frame_run_steps[OF this]]
  show ?thesis using rm by simp
qed

lemma same_frame_runs: "same_frame s (runs s calls)"
proof (induction calls arbitrary: s)
  case Nil
  then show ?case by (simp add: same_frame_refl)
next
  case (Cons call calls)
  show ?case
    using same_frame_trans[OF same_frame_run_model Cons.IH] by simp
qed

lemma wf_net_frame: "same_frame s s' \<Longrightarrow> wf_net s \<Longrightarrow> wf_net s'"
  by (simp add: same_frame_def static_def wf_net_def)

lemma static_fields:
  assumes "same_frame s s'"
  shows "Vth s' = Vth s" "Vr s' = Vr s" "Vreset s' = Vreset s" "R_m s' = R_m s" "tau s' = tau s"
    "dt s' = dt s" "neuron_num s' = neuron_num s" "input_num s' = input_num s"
    "connections s' = connections s" "input_connections s' = input_connections s"
    "keep_data s' = keep_data s" "model_type s' = model_type s" "model s' = model s"
    "synaptic_current s' = synaptic_current s" "input_current s' = input_current s"
    "V_syn s' = V_syn s" "inh_idx s' = inh_idx s" "ref s' = ref s" "tau_psc s' = tau_psc s"
    "connections_bool s' = connections_bool s" "in_connections_bool s' = in_connections_bool s"
    "tauN s' = tauN s" "alpha s' = alpha s" "gk s' = gk s" "Vk s' = Vk s" "J_syn s' = J_syn s"
    "tauRise s' = tauRise s" "tauDec s' = tauDec s"
  using assms by (simp_all add: same_frame_def static_def)


section \<open>What the constructor establishes\<close>

lemma blank_net_fields:
  "V_syn (blank_net c inh) = c_V_syn c"
  "inh_idx (blank_net c inh) = inh"
  "input_num (blank_net c inh) = c_input_num c"
  "neuron_num (blank_net c inh) = lattice_size (dim (blank_net c inh))"
  "Vreset (blank_net c inh) = c_Vth c - c_Vreset c"
  "Vth (blank_net c inh) = c_Vth c"
  "Vr (blank_net c inh) = c_Vr c"
  "dt (blank_net c inh) = c_dt c"
  "model_type (blank_net c inh) = c_model c"
  "keep_data (blank_net c inh) = c_keep_data c"
  "input_t (blank_net c inh) = replicate (c_input_num c) (- 1)"
  "connections (blank_net c inh) = zeros2 (neuron_num (blank_net c inh)) (neuron_num (blank_net c inh))"
  "input_connections (blank_net c inh) = zeros2 (neuron_num (blank_net c inh)) (c_input_num c)"
  "length (type_array (blank_net c inh)) = neuron_num (blank_net c inh)"
  "model (blank_net c inh) =
     (if c_model c = ''LIF'' \<or> c_model c = ''SOC'' then Some LIF_kernel
      else if c_model c = ''SFA'' then Some SFA_kernel else None)"
  "synaptic_current (blank_net c inh) = model (blank_net c inh)"
  "input_current (blank_net c inh) = model (blank_net c inh)"
  by (simp_all add: blank_net_def Let_def length_fold_update)

lemma Network_Inr:
  assumes "Network c inh rnd = Inr s"
  shows "\<exists>M_in M_c.
           s = reset_history ((blank_net c inh)\<lparr>input_connections := M_in, connections := M_c,
                 connections_bool := mask_of M_c, in_connections_bool := mask_of M_in\<rparr>)
         \<and> input_inv (blank_net c inh) (neuron_num (blank_net c inh)) (c_input_num c) M_in
         \<and> neuron_inv (blank_net c inh) (neuron_num (blank_net c inh)) M_c"
proof -
  let ?b = "blank_net c inh"
  from assms obtain g where g: "generate_connections rnd ?b = Inr g"
    and s: "s = reset_history (g\<lparr>connections_bool := mask_of (connections g),
                 in_connections_bool := mask_of (input_connections g)\<rparr>)"
    by (auto simp: Network_def split: sum.splits)
  have a: "input_inv ?b (neuron_num ?b) (input_num ?b) (input_connections ?b)"
    by (simp add: blank_net_fields input_inv_zeros)
  have b: "neuron_inv ?b (neuron_num ?b) (connections ?b)"
    by (simp add: blank_net_fields neuron_inv_zeros)
  from generate_connections_Inr[OF g a b] obtain M_in M_c where
    g': "g = ?b\<lparr>input_connections := M_in, connections := M_c\<rparr>"
    and i1: "input_inv ?b (neuron_num ?b) (input_num ?b) M_in"
    and i2: "neuron_inv ?b (neuron_num ?b) M_c"
    by blast
  have "s = reset_history (?b\<lparr>input_connections := M_in, connections := M_c,
                 connections_bool := mask_of M_c, in_connections_bool := mask_of M_in\<rparr>)"
    using s g' by simp
  then show ?thesis using i1 i2 by (auto simp: blank_net_fields)
qed

lemma Network_fields:
  assumes "Network c inh rnd = Inr s"
  shows "V_syn s = c_V_syn c" "inh_idx s = inh" "input_num s = c_input_num c"
    "neuron_num s = lattice_size (dim s)" "Vreset s = c_Vth c - c_Vreset c" "Vth s = c_Vth c"
    "Vr s = c_Vr c" "dt s = c_dt c" "model_type s = c_model c" "keep_data s = c_keep_data c"
    "input_t s = replicate (c_input_num c) (- 1)"
    "model s = (if c_model c = ''LIF'' \<or> c_model c = ''SOC'' then Some LIF_kernel
                else if c_model c = ''SFA'' then Some SFA_kernel else None)"
    "synaptic_current s = model s" "input_current s = model s"
    "neuron_num s = neuron_num (blank_net c inh)"
  using Network_Inr[OF assms]
  by (auto simp: reset_history_def Let_def blank_net_fields)

lemma Network_invs:
  assumes "Network c inh rnd = Inr s"
  shows "input_inv s (neuron_num s) (input_num s) (input_connections s)"
    and "neuron_inv s (neuron_num s) (connections s)"
    and "wf_net s"
proof -
  from Network_Inr[OF assms] obtain M_in M_c where
    s: "s = reset_history ((blank_net c inh)\<lparr>input_connections := M_in, connections := M_c,
                 connections_bool := mask_of M_c, in_connections_bool := mask_of M_in\<rparr>)"
    and i1: "input_inv (blank_net c inh) (neuron_num (blank_net c inh)) (c_input_num c) M_in"
    and i2: "neuron_inv (blank_net c inh) (neuron_num (blank_net c inh)) M_c"
    by blast
  have f: "input_connections s = M_in" "connections s = M_c"
    "neuron_num s = neuron_num (blank_net c inh)" "input_num s = c_input_num c"
    "V_syn s = V_syn (blank_net c inh)" "inh_idx s = inh_idx (blank_net c inh)"
    by (simp_all add: s reset_history_def Let_def blank_net_fields)
  show "input_inv s (neuron_num s) (input_num s) (input_connections s)"
    using i1 by (simp add: f input_inv_def excitatory_def)
  show "neuron_inv s (neuron_num s) (connections s)"
    using i2 by (simp add: f neuron_inv_def excitatory_def)
  show "wf_net s"
    using i1 i2
    by (simp add: s wf_net_def reset_history_def Let_def blank_net_fields length_fold_update
        input_inv_def neuron_inv_def)
qed

section \<open>Topology\<close>

text \<open>
  Claim C5, as amended.  In a constructed network every entry of \<open>input_connections\<close>,
  for a neuron \<open>j\<close> and an input channel \<open>i\<close>, is either the initial \<open>0\<close> or the
  entry of the table \<open>V_syn\<close> under the key whose first component is the type of the
  target neuron \<open>j\<close> and whose second component is \<open>1\<close> (excitatory): the weight of a
  created input edge is \<open>V_syn[(type(j), 1)]\<close>.
\<close>

theorem input_weight_keyed_by_target_first:
  assumes "Network c inh rnd = Inr s" and "j < neuron_num s" and "i < input_num s"
  shows "input_connections s ! j ! i = 0
         \<or> c_V_syn c (j \<notin> set inh, True) = Some (input_connections s ! j ! i)"
  using Network_invs(1)[OF assms(1)] assms(2,3) Network_fields(1,2)[OF assms(1)]
  by (auto simp: input_inv_def excitatory_def)

text \<open>The small network as an instance of C5 as amended.\<close>

theorem input_weight_keyed_by_target_first_witness:
  "Network small_config [0] zero_draws = Inr small_net \<and> 0 < neuron_num small_net
   \<and> 0 < input_num small_net
   \<and> (input_connections small_net ! 0 ! 0 = 0
      \<or> c_V_syn small_config (0 \<notin> set [0::nat], True) = Some (input_connections small_net ! 0 ! 0))"
proof -
  have a: "0 < neuron_num small_net" and b: "0 < input_num small_net"
    by (simp_all add: small_net_def)
  show ?thesis
    using input_weight_keyed_by_target_first[OF Network_small a b] Network_small a b by simp
qed

text \<open>
  Claim C5 as it is stated fails.  In the small network neuron 0 is inhibitory and its
  input edge has the weight \<open>- 20\<close>, the entry under \<open>(0, 1)\<close>, while the entry under
  (excitatory, type of the target), that is under \<open>(1, 0)\<close>, is \<open>25\<close>.
\<close>

theorem input_weight_counterexample:
  "Network small_config [0] zero_draws = Inr small_net
   \<and> \<not> excitatory small_net 0
   \<and> input_connections small_net ! 0 ! 0 = - 20
   \<and> V_syn small_net (True, excitatory small_net 0) = Some 25"
  using Network_small
  by (simp add: small_net_def excitatory_def V_syn_default_def)

text \<open>
  Claim C6.  After the constructor has run \<open>generate_connections\<close>, the diagonal of
  \<open>connections\<close> is zero, every nonzero entry of \<open>connections\<close> and of
  \<open>input_connections\<close> is a value of the configured table \<open>V_syn\<close>, the matrices have
  the shapes neuron count by neuron count and neuron count by input count, and neither
  \<open>reset_history\<close> nor any sequence of calls of \<open>run_model\<close> changes an entry of them.
\<close>

theorem topology_fixed:
  assumes "Network c inh rnd = Inr s"
  shows "(\<forall>i<neuron_num s. connections s ! i ! i = 0)
       \<and> (\<forall>i<neuron_num s. \<forall>j<neuron_num s.
            connections s ! i ! j \<noteq> 0 \<longrightarrow> connections s ! i ! j \<in> ran (c_V_syn c))
       \<and> (\<forall>j<neuron_num s. \<forall>i<input_num s.
            input_connections s ! j ! i \<noteq> 0 \<longrightarrow> input_connections s ! j ! i \<in> ran (c_V_syn c))
       \<and> mat_shape (neuron_num s) (neuron_num s) (connections s)
       \<and> mat_shape (neuron_num s) (input_num s) (input_connections s)
       \<and> neuron_num s = lattice_size (dim s) \<and> input_num s = c_input_num c
       \<and> connections (reset_history s) = connections s
       \<and> input_connections (reset_history s) = input_connections s
       \<and> (\<forall>calls. connections (runs s calls) = connections s
                 \<and> input_connections (runs s calls) = input_connections s)"
proof -
  note inv = Network_invs[OF assms]
  note fl = Network_fields[OF assms]
  have d: "\<forall>i<neuron_num s. connections s ! i ! i = 0"
    using inv(2) by (simp add: neuron_inv_def)
  have c: "\<forall>i<neuron_num s. \<forall>j<neuron_num s.
            connections s ! i ! j \<noteq> 0 \<longrightarrow> connections s ! i ! j \<in> ran (c_V_syn c)"
  proof (intro allI impI)
    fix i j
    assume "i < neuron_num s" "j < neuron_num s" "connections s ! i ! j \<noteq> 0"
    with inv(2) have "V_syn s (excitatory s i, excitatory s j) = Some (connections s ! i ! j)"
      by (auto simp: neuron_inv_def)
    then show "connections s ! i ! j \<in> ran (c_V_syn c)"
      unfolding fl(1) by (rule ranI)
  qed
  have e: "\<forall>j<neuron_num s. \<forall>i<input_num s.
            input_connections s ! j ! i \<noteq> 0 \<longrightarrow> input_connections s ! j ! i \<in> ran (c_V_syn c)"
  proof (intro allI impI)
    fix j i
    assume "j < neuron_num s" "i < input_num s" "input_connections s ! j ! i \<noteq> 0"
    with inv(1) have "V_syn s (excitatory s j, True) = Some (input_connections s ! j ! i)"
      by (auto simp: input_inv_def)
    then show "input_connections s ! j ! i \<in> ran (c_V_syn c)"
      unfolding fl(1) by (rule ranI)
  qed
  have sh: "mat_shape (neuron_num s) (neuron_num s) (connections s)"
    "mat_shape (neuron_num s) (input_num s) (input_connections s)"
    using inv(1,2) by (simp_all add: input_inv_def neuron_inv_def)
  have r: "connections (reset_history s) = connections s"
    "input_connections (reset_history s) = input_connections s"
    using static_fields(9,10)[OF same_frame_reset] by simp_all
  have m: "\<forall>calls. connections (runs s calls) = connections s
                 \<and> input_connections (runs s calls) = input_connections s"
    using static_fields(9,10)[OF same_frame_runs] by simp
  show ?thesis using d c e sh fl(3,4) r m by blast
qed

text \<open>The small network, and two runs on it, as an instance of C6.\<close>

theorem topology_fixed_witness:
  "Network small_config [0] zero_draws = Inr small_net
   \<and> connections small_net ! 0 ! 0 = 0 \<and> connections small_net ! 1 ! 1 = 0
   \<and> connections small_net ! 1 ! 0 \<in> ran (c_V_syn small_config)
   \<and> connections (runs small_net [([[0, 0]], False), ([[1]], True)]) = connections small_net
   \<and> input_connections (runs small_net [([[0, 0]], False), ([[1]], True)])
       = input_connections small_net"
proof -
  note t = topology_fixed[OF Network_small]
  have n: "0 < neuron_num small_net" "1 < neuron_num small_net"
    and v: "connections small_net ! 1 ! 0 \<noteq> 0"
    by (simp_all add: small_net_def)
  have d: "\<forall>i<neuron_num small_net. connections small_net ! i ! i = 0"
    using t by blast
  have c: "\<forall>i<neuron_num small_net. \<forall>j<neuron_num small_net.
            connections small_net ! i ! j \<noteq> 0
            \<longrightarrow> connections small_net ! i ! j \<in> ran (c_V_syn small_config)"
    using t by blast
  have m: "\<forall>calls. connections (runs small_net calls) = connections small_net
                 \<and> input_connections (runs small_net calls) = input_connections small_net"
    using t by blast
  show ?thesis
    using Network_small d n c v m by blast
qed


section \<open>When the constructor succeeds\<close>

lemma input_edge_total:
  assumes "snd x < lattice_size (dim s)" and "\<forall>k. V_syn s k \<noteq> None"
  shows "\<exists>a'. input_edge rnd s x a = Inr a'"
proof -
  obtain i j where x: "x = (i, j)" by (cases x)
  obtain M k where a: "a = (M, k)" by (cases a)
  from assms(2) obtain w where "V_syn s (excitatory s j, True) = Some w" by auto
  then show ?thesis using assms(1)
    by (simp add: input_edge_def x a get_pos_def lookup_def Let_def)
qed

lemma neuron_edge_total:
  assumes "fst x < lattice_size (dim s)" and "snd x < lattice_size (dim s)"
    and "\<forall>k. V_syn s k \<noteq> None" and "\<forall>k. connect_const s k \<noteq> None"
  shows "\<exists>a'. neuron_edge rnd s x a = Inr a'"
proof -
  obtain i j where x: "x = (i, j)" by (cases x)
  obtain M k where a: "a = (M, k)" by (cases a)
  from assms(3) obtain w where w: "V_syn s (excitatory s i, excitatory s j) = Some w" by auto
  from assms(4) obtain c where c: "connect_const s (excitatory s i, excitatory s j) = Some c" by auto
  show ?thesis using assms(1,2) w c
    by (simp add: neuron_edge_def x a get_pos_def lookup_def Let_def)
qed

lemma generate_connections_total:
  assumes "neuron_num s = lattice_size (dim s)"
    and "\<forall>k. V_syn s k \<noteq> None" and "\<forall>k. connect_const s k \<noteq> None"
  shows "\<exists>s'. generate_connections rnd s = Inr s'"
proof -
  have le: "neuron_num s div clusters s \<le> neuron_num s"
    by (rule div_le_dividend)
  have "\<exists>r. foldE (input_edge rnd s) (List.product [0..<input_num s] [0..<neuron_num s div clusters s])
           (input_connections s, 0) = Inr r \<and> True"
  proof (rule foldE_total)
    show True ..
  next
    fix x a
    assume "x \<in> set (List.product [0..<input_num s] [0..<neuron_num s div clusters s])"
    then have "snd x < neuron_num s div clusters s" by auto
    then have "snd x < neuron_num s" by (rule less_le_trans[OF _ le])
    then have "snd x < lattice_size (dim s)" using assms(1) by simp
    from input_edge_total[OF this assms(2)]
    show "\<exists>a'. input_edge rnd s x a = Inr a' \<and> True" by simp
  qed
  then obtain M_in k where f1: "foldE (input_edge rnd s)
      (List.product [0..<input_num s] [0..<neuron_num s div clusters s])
      (input_connections s, 0) = Inr (M_in, k)"
    by auto
  have "\<exists>r. foldE (neuron_edge rnd s) (List.product [0..<neuron_num s] [0..<neuron_num s])
           (connections s, k) = Inr r \<and> True"
  proof (rule foldE_total)
    show True ..
  next
    fix x a
    assume "x \<in> set (List.product [0..<neuron_num s] [0..<neuron_num s])"
    then have "fst x < lattice_size (dim s)" "snd x < lattice_size (dim s)"
      using assms(1) by auto
    from neuron_edge_total[OF this assms(2,3)]
    show "\<exists>a'. neuron_edge rnd s x a = Inr a' \<and> True" by simp
  qed
  then obtain M_c k2 where f2: "foldE (neuron_edge rnd s)
      (List.product [0..<neuron_num s] [0..<neuron_num s]) (connections s, k) = Inr (M_c, k2)"
    by auto
  show ?thesis using f1 f2 by (simp add: generate_connections_def)
qed

lemma Network_total:
  assumes "\<forall>k. c_V_syn c k \<noteq> None" and "\<forall>k. c_connect_const c k \<noteq> None"
  shows "\<exists>s. Network c inh rnd = Inr s"
proof -
  have "\<exists>s'. generate_connections rnd (blank_net c inh) = Inr s'"
    by (rule generate_connections_total)
      (use assms in \<open>simp_all add: blank_net_def Let_def\<close>)
  then show ?thesis by (auto simp: Network_def)
qed

section \<open>The schedule of a run\<close>

lemma linspace_nth:
  assumes "k < T"
  shows "linspace d (real T * d) T ! k = real (Suc k) * d"
proof (cases "T = 1")
  case True
  then show ?thesis using assms by (simp add: linspace_def)
next
  case False
  with assms have T: "1 < T" by simp
  then have nz: "real (T - 1) \<noteq> 0" by simp
  have "(real T * d - d) / real (T - 1) = d"
  proof -
    have "real T * d - d = real (T - 1) * d" using T by (simp add: of_nat_diff algebra_simps)
    then show ?thesis using nz by simp
  qed
  then show ?thesis using assms False by (simp add: linspace_def algebra_simps)
qed

lemma length_linspace: "length (linspace a b T) = T"
  by (simp add: linspace_def)

lemma length_schedule: "length (schedule s T) = T"
  by (simp add: schedule_def length_linspace)

lemma schedule_nth: "k < T \<Longrightarrow> schedule s T ! k = (Suc k, real (Suc k) * dt s)"
  by (simp add: schedule_def length_linspace linspace_nth del: upt_Suc)

lemma schedule_Cons: "0 < T \<Longrightarrow> \<exists>rest. schedule s T = (1, dt s) # rest"
proof -
  assume T: "0 < T"
  then have "schedule s T \<noteq> []" using length_schedule[of s T] by auto
  then obtain x rest where c: "schedule s T = x # rest" by (cases "schedule s T") auto
  have "x = schedule s T ! 0" using c by simp
  also have "\<dots> = (1, dt s)" using schedule_nth[OF T, of s] by simp
  finally show ?thesis using c by simp
qed

lemma start_run_fields:
  "Vs (start_run s I) = replicate (neuron_num s) (Vr s)"
  "spikes_t (start_run s I) = replicate (neuron_num s) (- 1)"
  "Is (start_run s I) = replicate (neuron_num s) 0"
  "EPSC (start_run s I) = replicate (neuron_num s) 0"
  "n_open (start_run s I) = replicate (neuron_num s) 0"
  "Ia (start_run s I) = replicate (neuron_num s) 0"
  "spikes (start_run s I) = replicate (neuron_num s) False"
  "input_t (start_run s I) = input_t s"
  by (simp_all add: start_run_def reset_history_def Let_def)

section \<open>A model without an active set\<close>

lemma step_unbound:
  assumes "model_type s \<noteq> ''LIF''" and "model_type s \<noteq> ''SFA''" and "input_current s \<noteq> None"
  shows "\<exists>e s'. step ty I (i, tc) s = (Some e, s')
           \<and> (e = UnboundLocalError \<or> ty \<and> e = IndexError)
           \<and> Vs s' = Vs s \<and> t_now s' = tc"
proof (cases ty)
  case False
  then show ?thesis using assms
    by (simp add: step_def active_set_def external_current_def integrate_def active_neurons_def)
next
  case True
  let ?s1 = "s\<lparr>t_now := tc\<rparr>"
  show ?thesis
  proof (cases "fill_idx (input_t ?s1) (nonzero (map (\<lambda>x. x \<noteq> 0) (I ! (i - 1)))) tc")
    case (Inl e)
    then have "e = IndexError" by (auto simp: fill_idx_def split: if_splits)
    then show ?thesis using assms True Inl
      by (simp add: step_def active_set_def external_current_def)
  next
    case (Inr it)
    from assms(3) obtain k where k: "input_current s = Some k" by auto
    show ?thesis using assms True Inr k
      by (cases k)
        (simp_all add: step_def active_set_def external_current_def integrate_def
          active_neurons_def call_input_current_def Let_def)
  qed
qed


text \<open>
  Claim C10.  With complete tables the constructor succeeds for the model \<open>SOC\<close> and
  stores the LIF methods.  On the constructed network, also after earlier calls, every
  call of \<open>run_model\<close> with a nonempty array raises in its first iteration: no iteration
  runs to its end, the time is that of the first step and the potentials are those of
  the reset.  The exception is the UnboundLocalError of the name \<open>active_neurons\<close> in
  line 273, unless with \<open>input_type = 1\<close> the store into \<open>input_t\<close> of line 265 has
  already raised IndexError.
\<close>

theorem SOC_run_fails:
  assumes "c_model c = ''SOC''"
    and "\<forall>k. c_V_syn c k \<noteq> None" and "\<forall>k. c_connect_const c k \<noteq> None"
  shows "\<exists>s. Network c inh rnd = Inr s
           \<and> model s = Some LIF_kernel \<and> synaptic_current s = Some LIF_kernel
           \<and> input_current s = Some LIF_kernel
           \<and> (\<forall>calls I ty. I \<noteq> [] \<longrightarrow>
                (fst (run_model (runs s calls) I ty) = Some UnboundLocalError
                 \<or> ty \<and> fst (run_model (runs s calls) I ty) = Some IndexError)
                \<and> iterations (runs s calls) I ty = 0
                \<and> t_now (snd (run_model (runs s calls) I ty)) = dt s
                \<and> Vs (snd (run_model (runs s calls) I ty)) = replicate (neuron_num s) (Vr s))"
proof -
  from Network_total[OF assms(2,3)] obtain s where s: "Network c inh rnd = Inr s" by blast
  note fl = Network_fields[OF s]
  have k: "model s = Some LIF_kernel" "synaptic_current s = Some LIF_kernel"
    "input_current s = Some LIF_kernel"
    using fl(12,13,14) assms(1) by simp_all
  have "(fst (run_model (runs s calls) I ty) = Some UnboundLocalError
                 \<or> ty \<and> fst (run_model (runs s calls) I ty) = Some IndexError)
                \<and> iterations (runs s calls) I ty = 0
                \<and> t_now (snd (run_model (runs s calls) I ty)) = dt s
                \<and> Vs (snd (run_model (runs s calls) I ty)) = replicate (neuron_num s) (Vr s)"
    if ne: "I \<noteq> []" for calls I ty
  proof -
    let ?r = "runs s calls"
    let ?s0 = "start_run ?r I"
    have fr: "same_frame s ?s0"
      using same_frame_trans[OF same_frame_runs same_frame_start_run] .
    have fr1: "same_frame s ?r" by (rule same_frame_runs)
    note sf = static_fields[OF fr]
    note sf1 = static_fields[OF fr1]
    have mt: "model_type ?s0 \<noteq> ''LIF''" "model_type ?s0 \<noteq> ''SFA''" "input_current ?s0 \<noteq> None"
      using sf(12,15) fl(9) k(3) assms(1) by simp_all
    from ne have "0 < length I" by simp
    from schedule_Cons[OF this] obtain rest where
      sc: "schedule ?r (length I) = (1, dt ?r) # rest" by blast
    from step_unbound[OF mt, of ty I 1 "dt ?r"] obtain e s' where
      st: "step ty I (1, dt ?r) ?s0 = (Some e, s')"
      and e: "e = UnboundLocalError \<or> ty \<and> e = IndexError"
      and v: "Vs s' = Vs ?s0" "t_now s' = dt ?r"
      by blast
    have rm: "run_model ?r I ty = (Some e, s')"
      using st by (simp add: run_model_def sc)
    have it: "iterations ?r I ty = 0"
      using st by (simp add: iterations_def sc)
    show ?thesis
      using rm it e v sf1(6,7,2) by (auto simp: start_run_fields)
  qed
  then show ?thesis using s k by blast
qed

text \<open>The small configuration with the model \<open>SOC\<close> as an instance of C10.\<close>

theorem SOC_run_fails_witness:
  "c_model (small_config\<lparr>c_model := ''SOC''\<rparr>) = ''SOC''
   \<and> (\<forall>k. c_V_syn (small_config\<lparr>c_model := ''SOC''\<rparr>) k \<noteq> None)
   \<and> (\<forall>k. c_connect_const (small_config\<lparr>c_model := ''SOC''\<rparr>) k \<noteq> None)
   \<and> (\<exists>s. Network (small_config\<lparr>c_model := ''SOC''\<rparr>) [0] zero_draws = Inr s
          \<and> model s = Some LIF_kernel
          \<and> fst (run_model (runs s []) [[0, 0]] False) = Some UnboundLocalError
          \<and> iterations (runs s []) [[0, 0]] False = 0)"
proof -
  let ?c = "small_config\<lparr>c_model := ''SOC''\<rparr>"
  have a: "c_model ?c = ''SOC''" by simp
  have b: "\<forall>k. c_V_syn ?c k \<noteq> None"
    by (simp add: small_config_def default_config_def V_syn_default_def del: not_None_eq)
  have d: "\<forall>k. c_connect_const ?c k \<noteq> None"
    by (simp add: small_config_def default_config_def connect_const_default_def del: not_None_eq)
  from SOC_run_fails[OF a b d, of "[0]" zero_draws] obtain s where
    s: "Network ?c [0] zero_draws = Inr s" "model s = Some LIF_kernel"
    and r: "\<forall>calls I ty. I \<noteq> [] \<longrightarrow>
                (fst (run_model (runs s calls) I ty) = Some UnboundLocalError
                 \<or> ty \<and> fst (run_model (runs s calls) I ty) = Some IndexError)
                \<and> iterations (runs s calls) I ty = 0
                \<and> t_now (snd (run_model (runs s calls) I ty)) = dt s
                \<and> Vs (snd (run_model (runs s calls) I ty)) = replicate (neuron_num s) (Vr s)"
    by blast
  have "[[0, 0::real]] \<noteq> []" by simp
  with r have "(fst (run_model (runs s []) [[0, 0]] False) = Some UnboundLocalError
                 \<or> False \<and> fst (run_model (runs s []) [[0, 0]] False) = Some IndexError)
                \<and> iterations (runs s []) [[0, 0]] False = 0"
    by blast
  then show ?thesis using a b d s by blast
qed


section \<open>Indexed stores and columns\<close>

lemma length_put: "length (put xs idx vals) = length xs"
  unfolding put_def by (induction idx arbitrary: vals xs) (auto simp: zip_Cons1 split: list.splits)

lemma put_notin: "j \<notin> set idx \<Longrightarrow> put xs idx vals ! j = xs ! j"
  unfolding put_def
proof (induction idx arbitrary: vals xs)
  case Nil
  then show ?case by simp
next
  case (Cons k ks)
  show ?case
  proof (cases vals)
    case Nil
    then show ?thesis by simp
  next
    case (Cons v vs)
    then show ?thesis using Cons.IH[of vs "xs[k := v]"] Cons.prems by simp
  qed
qed

lemma put_nth:
  "distinct idx \<Longrightarrow> length vals = length idx \<Longrightarrow> list_all (\<lambda>k. k < length xs) idx \<Longrightarrow>
   m < length idx \<Longrightarrow> put xs idx vals ! (idx ! m) = vals ! m"
proof (induction idx arbitrary: vals xs m)
  case Nil
  then show ?case by simp
next
  case (Cons k ks)
  then obtain v vs where vals: "vals = v # vs" by (cases vals) auto
  have step: "put xs (k # ks) vals = put (xs[k := v]) ks vs"
    by (simp add: put_def vals)
  show ?case
  proof (cases m)
    case 0
    have "put (xs[k := v]) ks vs ! k = (xs[k := v]) ! k"
      using Cons.prems(1) by (intro put_notin) simp
    then show ?thesis using 0 step vals Cons.prems(3) by simp
  next
    case (Suc m')
    have "put (xs[k := v]) ks vs ! (ks ! m') = vs ! m'"
      using Cons.prems Suc vals by (intro Cons.IH) simp_all
    then show ?thesis using Suc step vals by simp
  qed
qed

lemma set_put: "set (put xs idx vals) \<subseteq> set xs \<union> set vals"
  unfolding put_def
proof (induction idx arbitrary: vals xs)
  case Nil
  then show ?case by simp
next
  case (Cons k ks)
  show ?case
  proof (cases vals)
    case Nil
    then show ?thesis by simp
  next
    case (Cons v vs)
    have "set (xs[k := v]) \<subseteq> insert v (set xs)" by (rule set_update_subset_insert)
    then show ?thesis using Cons.IH[of vs "xs[k := v]"] Cons by auto
  qed
qed

lemma put_upt: "length vals = length xs \<Longrightarrow> put xs [0..<length xs] vals = vals"
proof (rule nth_equalityI)
  show "length (put xs [0..<length xs] vals) = length vals" if "length vals = length xs"
    using that by (simp add: length_put)
next
  fix j
  assume l: "length vals = length xs" and j: "j < length (put xs [0..<length xs] vals)"
  then have j': "j < length xs" by (simp add: length_put)
  have "put xs [0..<length xs] vals ! ([0..<length xs] ! j) = vals ! j"
    by (rule put_nth) (use l j' in \<open>simp_all add: list_all_length\<close>)
  then show "put xs [0..<length xs] vals ! j = vals ! j" using j' by simp
qed

lemma take_idx_ok:
  "list_all (\<lambda>k. k < length xs) idx \<Longrightarrow> take_idx xs idx = Inr (map (\<lambda>k. xs ! k) idx)"
  by (simp add: take_idx_def)

lemma put_idx_ok:
  "list_all (\<lambda>k. k < length xs) idx \<Longrightarrow> length vals = length idx \<Longrightarrow>
   put_idx xs idx vals = Inr (put xs idx vals)"
  by (simp add: put_idx_def put_def)

lemma bcast_ok: "length xs = length ys \<Longrightarrow> bcast f xs ys = Inr (map2 f xs ys)"
  by (simp add: bcast_def)

lemma set_nonzero: "set (nonzero bs) = {k. k < length bs \<and> bs ! k}"
  by (auto simp: nonzero_def)

lemma distinct_nonzero: "distinct (nonzero bs)"
  by (simp add: nonzero_def)

lemma nonzero_lt: "length bs \<le> n \<Longrightarrow> list_all (\<lambda>k. k < n) (nonzero bs)"
  by (auto simp: nonzero_def list_all_iff)

lemma fill_idx_ok:
  "length row \<le> length xs \<Longrightarrow>
   \<exists>ys. fill_idx xs (nonzero (map (\<lambda>x. x \<noteq> 0) row)) v = Inr ys \<and> length ys = length xs"
  using nonzero_lt[of "map (\<lambda>x. x \<noteq> 0) row" "length xs"]
  by (simp add: fill_idx_def length_fold_update)

lemma length_dot: "length (dot M v) = length M"
  by (simp add: dot_def)

lemma mat_shape_set_col:
  "mat_shape r c M \<Longrightarrow> length v = r \<Longrightarrow> mat_shape r c (set_col M i v)"
  by (auto simp: mat_shape_def set_col_def list_all_length)

lemma col_set_col:
  "mat_shape r c M \<Longrightarrow> length v = r \<Longrightarrow> i < c \<Longrightarrow> col (set_col M i v) i = v"
  by (auto simp: mat_shape_def set_col_def col_def list_all_length intro!: nth_equalityI)

lemma set_col_nth:
  "mat_shape r c M \<Longrightarrow> length v = r \<Longrightarrow> i < c \<Longrightarrow> j < r \<Longrightarrow> set_col M i v ! j ! i = v ! j"
  by (auto simp: mat_shape_def set_col_def list_all_length)

lemma set_col_nth_other:
  "mat_shape r c M \<Longrightarrow> length v = r \<Longrightarrow> j < r \<Longrightarrow> i' \<noteq> i \<Longrightarrow>
   set_col M i v ! j ! i' = M ! j ! i'"
  by (auto simp: mat_shape_def set_col_def list_all_length)

lemma finish_step_None_D:
  assumes "finish_step i tc I_cur s3 = (None, s')"
  shows "\<exists>s4 v. propagate (fire tc s3) = (None, s4)
         \<and> bcast (+) I_cur (EPSC (settle (record_step i s4))) = Inr v
         \<and> s' = (settle (record_step i s4))\<lparr>Is := v\<rparr>"
  using assms
  by (auto simp: finish_step_def Let_def split: prod.splits sum.splits option.splits)

lemma step_None_D:
  assumes "step ty I (i, tc) s = (None, s')"
  shows "\<exists>I_cur s2 s3.
           external_current ty (I ! (i - 1)) tc (active_set (s\<lparr>t_now := tc\<rparr>)) = (Inr I_cur, s2)
         \<and> integrate s2 = (None, s3)
         \<and> finish_step i tc I_cur s3 = (None, s')"
  using assms
  by (auto simp: step_def Let_def split: prod.splits sum.splits option.splits)

lemma wf_kernel:
  assumes "wf_net s" and "model_type s = ''LIF'' \<or> model_type s = ''SFA''"
  shows "\<exists>k. model s = Some k \<and> synaptic_current s = Some k \<and> input_current s = Some k
            \<and> (k = LIF_kernel \<longleftrightarrow> model_type s = ''LIF'')"
  using assms by (auto simp: wf_net_def)


section \<open>The statements of one iteration\<close>

lemma map2_same: "map2 f (map g idx) (map h idx) = map (\<lambda>k. f (g k) (h k)) idx"
  by (simp add: zip_map_map zip_same_conv_map comp_def)

lemma external_current_ok:
  assumes "wf_net s" and "length (Vs s) = neuron_num s"
    and "model_type s = ''LIF'' \<or> model_type s = ''SFA''"
    and "length row = (if ty then input_num s else neuron_num s)"
  shows "\<exists>I_cur it. external_current ty row tc s = (Inr I_cur, s\<lparr>input_t := it\<rparr>)
           \<and> length I_cur = neuron_num s \<and> length it = input_num s"
proof (cases ty)
  case False
  have li: "length (input_t s) = input_num s" using assms(1) by (simp add: wf_net_def)
  have "external_current ty row tc s = (Inr row, s\<lparr>input_t := input_t s\<rparr>)"
    using False by (simp add: external_current_def)
  then show ?thesis using li assms(4) False
    by (intro exI[of _ row] exI[of _ "input_t s"]) simp
next
  case True
  have li: "length (input_t s) = input_num s" using assms(1) by (simp add: wf_net_def)
  then have "length row \<le> length (input_t s)" using assms(4) True by simp
  from fill_idx_ok[OF this, of tc] obtain it where
    it: "fill_idx (input_t s) (nonzero (map (\<lambda>x. x \<noteq> 0) row)) tc = Inr it"
    and lit: "length it = length (input_t s)" by blast
  from wf_kernel[OF assms(1,3)] obtain k where k: "input_current s = Some k" by blast
  obtain ic where ic: "call_input_current (s\<lparr>input_t := it\<rparr>) = Inr ic"
    using k by (cases k) (simp_all add: call_input_current_def)
  have sh: "length (input_connections s) = neuron_num s"
    "length (in_connections_bool s) = neuron_num s"
    using assms(1) by (simp_all add: wf_net_def mat_shape_def mask_of_def)
  let ?I = "map2 (-) (dot (input_connections s) ic)
             (map2 (*) (dot (as_float (in_connections_bool s)) ic) (Vs s))"
  have eq: "external_current ty row tc s = (Inr ?I, s\<lparr>input_t := it\<rparr>)"
    using True it ic by (simp add: external_current_def Let_def)
  have "length ?I = neuron_num s"
    using sh assms(2) by (simp add: length_dot as_float_def)
  then show ?thesis using eq lit li
    by (intro exI[of _ ?I] exI[of _ it]) simp
qed

lemma integrate_LIF_ok:
  assumes "model s = Some LIF_kernel" and "model_type s = ''LIF''"
    and "list_all (\<lambda>k. k < length (Vs s)) (active s)"
    and "list_all (\<lambda>k. k < length (Is s)) (active s)"
  shows "integrate s =
           (None, s\<lparr>Vs := put (Vs s) (active s)
                     (map (\<lambda>k. Vs s ! k + dt s * ((Vr s - Vs s ! k + Is s ! k * R_m s) / tau s))
                        (active s))\<rparr>)"
  using assms
  by (simp add: integrate_def active_neurons_def call_model_def LIF_def take_idx_ok bcast_ok
      put_idx_ok map2_same)

lemma integrate_SFA_ok:
  assumes "model s = Some SFA_kernel" and "model_type s = ''SFA''"
    and "active s = [0..<neuron_num s]"
    and "length (Vs s) = neuron_num s" and "length (Is s) = neuron_num s"
    and "length (n_open s) = neuron_num s" and "length (spikes_t s) = neuron_num s"
  shows "\<exists>vs ia. integrate s = (None, (K_frac s)\<lparr>Ia := ia, Vs := vs\<rparr>)
           \<and> length vs = neuron_num s \<and> length ia = neuron_num s"
proof -
  let ?s1 = "K_frac s"
  let ?ia = "map2 (\<lambda>nj v. gk ?s1 * nj * (v - Vk ?s1)) (n_open ?s1) (Vs ?s1)"
  let ?s2 = "?s1\<lparr>Ia := ?ia\<rparr>"
  have l1: "length (n_open ?s1) = neuron_num s" "Vs ?s1 = Vs s" "Is ?s1 = Is s"
    "neuron_num ?s1 = neuron_num s"
    using assms(6,7) by (simp_all add: K_frac_def)
  have lia: "length ?ia = neuron_num s" using l1 assms(4) by simp
  let ?x = "map2 (-) (Is s) ?ia"
  let ?y = "map2 (+) (map (\<lambda>v. Vr ?s2 - v) (Vs s)) (map (\<lambda>y. y * R_m ?s2) ?x)"
  let ?d = "map (\<lambda>z. z / tau ?s2) ?y"
  have b1: "bcast (-) (Is ?s2) (Ia ?s2) = Inr ?x"
    using lia assms(5) l1 by (simp add: bcast_ok)
  have lx: "length ?x = neuron_num s" using lia assms(5) by simp
  have b2: "bcast (+) (map (\<lambda>v. Vr ?s2 - v) (Vs ?s2)) (map (\<lambda>y. y * R_m ?s2) ?x) = Inr ?y"
    using lx assms(4) l1 by (simp add: bcast_ok)
  have ly: "length ?y = neuron_num s" using lx assms(4) by simp
  have sfa: "SFA s = (Inr ?d, ?s2)"
    using b1 b2 by (simp add: SFA_def Let_def)
  have "map (\<lambda>k. Vs s ! k) [0..<length (Vs s)] = Vs s" by (rule map_nth)
  then have ti: "take_idx (Vs s) [0..<neuron_num s] = Inr (Vs s)"
    using assms(4) by (simp add: take_idx_def list_all_length)
  let ?v1 = "map2 (+) (Vs s) (map (\<lambda>x. dt ?s2 * x) ?d)"
  have b3: "bcast (+) (Vs s) (map (\<lambda>x. dt ?s2 * x) ?d) = Inr ?v1"
    using ly assms(4) by (simp add: bcast_ok)
  have lv: "length ?v1 = neuron_num s" using ly assms(4) by simp
  have pi: "put_idx (Vs ?s2) [0..<neuron_num s] ?v1 = Inr (put (Vs ?s2) [0..<neuron_num s] ?v1)"
    by (rule put_idx_ok) (use lv assms(4) l1 in \<open>simp_all add: list_all_length\<close>)
  have "integrate s = (None, ?s2\<lparr>Vs := put (Vs ?s2) [0..<neuron_num s] ?v1\<rparr>)"
    using assms(1,2,3) ti sfa b3 pi
    by (simp add: integrate_def active_neurons_def call_model_def)
  moreover have "length (put (Vs ?s2) [0..<neuron_num s] ?v1) = neuron_num s"
    using assms(4) l1 by (simp add: length_put)
  ultimately show ?thesis using lia by blast
qed

lemma lif_active_lt:
  "length (spikes_t s) = n \<Longrightarrow> list_all (\<lambda>k. k < n) (lif_active s)"
  unfolding lif_active_def by (rule nonzero_lt) simp

lemma propagate_ok:
  assumes "synaptic_current s = Some k"
  shows "\<exists>ep. propagate s = (None, s\<lparr>EPSC := ep\<rparr>)
           \<and> (length (connections s) = neuron_num s \<longrightarrow> length (connections_bool s) = neuron_num s
                \<longrightarrow> length (Vs s) = neuron_num s \<longrightarrow> length ep = neuron_num s)"
  using assms
  by (cases k) (auto simp: propagate_def call_synaptic_current_def length_dot as_float_def)


section \<open>An iteration on an array that numpy accepts\<close>

lemma run_inv_lengths:
  assumes "run_inv T s"
  shows "length (Vs s) = neuron_num s" "length (spikes_t s) = neuron_num s"
    "length (spikes s) = neuron_num s" "length (n_open s) = neuron_num s"
    "length (Ia s) = neuron_num s" "length (EPSC s) = neuron_num s"
    "length (A_act s) = activity_size s"
  using assms by (simp_all add: run_inv_def)

lemma run_inv_start_run: "run_inv (length I) (start_run s I)"
  by (simp add: run_inv_def start_run_def reset_history_def Let_def mat_shape_zeros2
      mat_shape_set_col)

lemma run_inv_begin:
  assumes "run_inv T s"
  shows "run_inv T ((active_set (s\<lparr>t_now := tc\<rparr>))\<lparr>input_t := it\<rparr>)"
  using assms by (simp add: run_inv_def active_set_def)

lemma active_begin:
  assumes "length (spikes_t s) = neuron_num s"
  shows "model_type s = ''LIF'' \<longrightarrow>
           active ((active_set (s\<lparr>t_now := tc\<rparr>))\<lparr>input_t := it\<rparr>) = lif_active (s\<lparr>t_now := tc\<rparr>)"
    and "model_type s = ''SFA'' \<longrightarrow>
           active ((active_set (s\<lparr>t_now := tc\<rparr>))\<lparr>input_t := it\<rparr>) = [0..<neuron_num s]"
    and "model_type s = ''LIF'' \<or> model_type s = ''SFA'' \<Longrightarrow>
           list_all (\<lambda>k. k < neuron_num s) (active ((active_set (s\<lparr>t_now := tc\<rparr>))\<lparr>input_t := it\<rparr>))"
proof -
  show "model_type s = ''LIF'' \<longrightarrow>
           active ((active_set (s\<lparr>t_now := tc\<rparr>))\<lparr>input_t := it\<rparr>) = lif_active (s\<lparr>t_now := tc\<rparr>)"
    by (simp add: active_set_def)
  show "model_type s = ''SFA'' \<longrightarrow>
           active ((active_set (s\<lparr>t_now := tc\<rparr>))\<lparr>input_t := it\<rparr>) = [0..<neuron_num s]"
    by (simp add: active_set_def)
  have "list_all (\<lambda>k. k < neuron_num s) (lif_active (s\<lparr>t_now := tc\<rparr>))"
    by (rule lif_active_lt) (use assms in simp)
  moreover have "list_all (\<lambda>k. k < neuron_num s) [0..<neuron_num s]"
    by (simp add: list_all_length)
  ultimately show "list_all (\<lambda>k. k < neuron_num s) (active ((active_set (s\<lparr>t_now := tc\<rparr>))\<lparr>input_t := it\<rparr>))"
    if "model_type s = ''LIF'' \<or> model_type s = ''SFA''"
    using that by (auto simp: active_set_def)
qed

lemma integrate_ok:
  assumes wf: "wf_net s" and ri: "run_inv T s" and li: "length (Is s) = neuron_num s"
    and mt: "model_type s = ''LIF'' \<or> model_type s = ''SFA''"
    and a1: "list_all (\<lambda>k. k < neuron_num s) (active s)"
    and a2: "model_type s = ''SFA'' \<longrightarrow> active s = [0..<neuron_num s]"
  shows "\<exists>s3. integrate s = (None, s3) \<and> run_inv T s3"
proof -
  note ln = run_inv_lengths[OF ri]
  from wf_kernel[OF wf mt] obtain k where k: "model s = Some k"
    and kk: "k = LIF_kernel \<longleftrightarrow> model_type s = ''LIF''" by blast
  show ?thesis
  proof (cases k)
    case LIF_kernel
    then have m: "model s = Some LIF_kernel" "model_type s = ''LIF''" using k kk by simp_all
    let ?vs = "put (Vs s) (active s)
                     (map (\<lambda>k. Vs s ! k + dt s * ((Vr s - Vs s ! k + Is s ! k * R_m s) / tau s))
                        (active s))"
    have "integrate s = (None, s\<lparr>Vs := ?vs\<rparr>)"
      by (rule integrate_LIF_ok[OF m]) (use a1 ln li in simp_all)
    moreover have "run_inv T (s\<lparr>Vs := ?vs\<rparr>)"
      using ri by (simp add: run_inv_def length_put)
    ultimately show ?thesis by blast
  next
    case SFA_kernel
    then have m: "model s = Some SFA_kernel" "model_type s = ''SFA''" using k kk mt by auto
    from integrate_SFA_ok[OF m _ ln(1) li ln(4) ln(2)] a2 m(2)
    obtain vs ia where ig: "integrate s = (None, (K_frac s)\<lparr>Ia := ia, Vs := vs\<rparr>)"
      and l: "length vs = neuron_num s" "length ia = neuron_num s" by blast
    have "run_inv T ((K_frac s)\<lparr>Ia := ia, Vs := vs\<rparr>)"
      using ri l by (simp add: run_inv_def K_frac_def)
    then show ?thesis using ig by blast
  qed
qed

lemma record_step_fields:
  "neuron_num (record_step i s) = neuron_num s" "spikes (record_step i s) = spikes s"
  "activity_size (record_step i s) = activity_size s" "Vs (record_step i s) = Vs s"
  "EPSC (record_step i s) = EPSC s" "spikes_t (record_step i s) = spikes_t s"
  "keep_data (record_step i s) = keep_data s" "Vreset (record_step i s) = Vreset s"
  "n_open (record_step i s) = n_open s" "Is (record_step i s) = Is s"
  by (simp_all add: record_step_def)

lemma bcast_len:
  "length xs = length ys \<or> length xs = 1 \<Longrightarrow> \<exists>v. bcast f xs ys = Inr v \<and> length v = length ys"
  by (auto simp: bcast_def)

lemma finish_step_ok:
  assumes wf: "wf_net s" and ri: "run_inv T s"
    and mt: "model_type s = ''LIF'' \<or> model_type s = ''SFA''"
    and lc: "length I_cur = neuron_num s \<or> length I_cur = 1"
  shows "\<exists>s'. finish_step i tc I_cur s = (None, s') \<and> run_inv T s'
           \<and> length (Is s') = neuron_num s"
proof -
  note ln = run_inv_lengths[OF ri]
  from wf_kernel[OF wf mt] obtain k where k: "synaptic_current s = Some k" by blast
  let ?f = "fire tc s"
  have kf: "synaptic_current ?f = Some k" using k by (simp add: fire_def Let_def)
  have shp: "length (connections ?f) = neuron_num ?f" "length (connections_bool ?f) = neuron_num ?f"
    "length (Vs ?f) = neuron_num ?f"
    using wf ln by (simp_all add: fire_def Let_def wf_net_def mat_shape_def mask_of_def)
  from propagate_ok[OF kf] shp obtain ep where
    pr: "propagate ?f = (None, ?f\<lparr>EPSC := ep\<rparr>)" and lep: "length ep = neuron_num ?f"
    by blast
  let ?s4 = "?f\<lparr>EPSC := ep\<rparr>"
  let ?s5 = "settle (record_step i ?s4)"
  have e5: "EPSC ?s5 = ep" by (simp add: settle_def record_step_def)
  have n5: "neuron_num ?f = neuron_num s" by (simp add: fire_def Let_def)
  have "length I_cur = length (EPSC ?s5) \<or> length I_cur = 1"
    using lc lep n5 e5 by simp
  from bcast_len[OF this, of "(+)"]
  obtain v where bc: "bcast (+) I_cur (EPSC ?s5) = Inr v" and lv: "length v = neuron_num s"
    using lep n5 e5 by auto
  have fin: "finish_step i tc I_cur s = (None, ?s5\<lparr>Is := v\<rparr>)"
    using pr bc by (simp add: finish_step_def Let_def)
  have r4: "run_inv T ?s4"
    using ri lep n5 by (simp add: run_inv_def fire_def Let_def)
  have r5: "run_inv T (record_step i ?s4)"
    using r4 by (auto simp: run_inv_def record_step_def mat_shape_set_col)
  have "run_inv T (?s5\<lparr>Is := v\<rparr>)"
    using r5 lep n5 by (simp add: run_inv_def settle_def record_step_fields)
  then show ?thesis using fin lv by auto
qed

lemma step_ok:
  assumes wf: "wf_net s" and ri: "run_inv T s" and li: "length (Is s) = neuron_num s"
    and mt: "model_type s = ''LIF'' \<or> model_type s = ''SFA''"
    and row': "row_ok s ty (I ! (i - 1))"
  shows "\<exists>s'. step ty I (i, tc) s = (None, s') \<and> run_inv T s'
           \<and> length (Is s') = neuron_num s"
proof -
  have row: "if ty then length (I ! (i - 1)) = input_num s
              else length (I ! (i - 1)) = neuron_num s \<or> length (I ! (i - 1)) = 1"
    using row' unfolding row_ok_def .
  let ?s1 = "active_set (s\<lparr>t_now := tc\<rparr>)"
  note ln = run_inv_lengths[OF ri]
  have f1: "same_frame s ?s1" by (rule same_frame_active_set)
  note sf1 = static_fields[OF f1]
  have wf1: "wf_net ?s1" by (rule wf_net_frame[OF f1 wf])
  have v1: "length (Vs ?s1) = neuron_num ?s1" using ln by (simp add: active_set_def)
  have mt1: "model_type ?s1 = ''LIF'' \<or> model_type ?s1 = ''SFA''" using mt sf1(12) by simp
  have "\<exists>I_cur it. external_current ty (I ! (i - 1)) tc ?s1 = (Inr I_cur, ?s1\<lparr>input_t := it\<rparr>)
          \<and> (length I_cur = neuron_num s \<or> length I_cur = 1)"
  proof (cases ty)
    case True
    then have row1: "length (I ! (i - 1)) = (if ty then input_num ?s1 else neuron_num ?s1)"
      using row sf1(8) by simp
    from external_current_ok[OF wf1 v1 mt1 row1, of tc] sf1(7) show ?thesis by auto
  next
    case False
    have "external_current ty (I ! (i - 1)) tc ?s1
            = (Inr (I ! (i - 1)), ?s1\<lparr>input_t := input_t ?s1\<rparr>)"
      using False by (simp add: external_current_def)
    then show ?thesis using row False
      by (intro exI[of _ "I ! (i - 1)"] exI[of _ "input_t ?s1"]) simp
  qed
  then obtain I_cur it where
    ec: "external_current ty (I ! (i - 1)) tc ?s1 = (Inr I_cur, ?s1\<lparr>input_t := it\<rparr>)"
    and lc: "length I_cur = neuron_num s \<or> length I_cur = 1" by blast
  let ?s2 = "?s1\<lparr>input_t := it\<rparr>"
  have f2: "same_frame s ?s2"
    using same_frame_trans[OF f1 same_frame_external_current[OF ec]] .
  note sf2 = static_fields[OF f2]
  have wf2: "wf_net ?s2" by (rule wf_net_frame[OF f2 wf])
  have r2: "run_inv T ?s2" by (rule run_inv_begin[OF ri])
  have mt2: "model_type ?s2 = ''LIF'' \<or> model_type ?s2 = ''SFA''" using mt sf2(12) by simp
  have a1: "list_all (\<lambda>k. k < neuron_num ?s2) (active ?s2)"
    using active_begin(3)[OF ln(2) mt, where tc = tc and it = it] sf2(7) by simp
  have a2: "model_type ?s2 = ''SFA'' \<longrightarrow> active ?s2 = [0..<neuron_num ?s2]"
    using active_begin(2)[OF ln(2), where tc = tc and it = it] sf2(7,12) by simp
  have li2: "length (Is ?s2) = neuron_num ?s2" using li by (simp add: active_set_def)
  from integrate_ok[OF wf2 r2 li2 mt2 a1 a2] obtain s3 where
    ig: "integrate ?s2 = (None, s3)" and r3: "run_inv T s3" by blast
  have f3: "same_frame s s3" using same_frame_trans[OF f2 same_frame_integrate[OF ig]] .
  note sf3 = static_fields[OF f3]
  have wf3: "wf_net s3" by (rule wf_net_frame[OF f3 wf])
  have mt3: "model_type s3 = ''LIF'' \<or> model_type s3 = ''SFA''" using mt sf3(12) by simp
  have lc3: "length I_cur = neuron_num s3 \<or> length I_cur = 1" using lc sf3(7) by simp
  from finish_step_ok[OF wf3 r3 mt3 lc3, of i tc] obtain s' where
    fin: "finish_step i tc I_cur s3 = (None, s')" and r': "run_inv T s'"
    and li': "length (Is s') = neuron_num s3" by blast
  have "step ty I (i, tc) s = (None, s')"
    using ec ig fin by (simp add: step_def Let_def)
  then show ?thesis using r' li' sf3(7) by auto
qed


section \<open>Runs\<close>

lemma row_ok_frame:
  "neuron_num s' = neuron_num s \<Longrightarrow> input_num s' = input_num s \<Longrightarrow>
   row_ok s' ty row = row_ok s ty row"
  by (simp add: row_ok_def)

lemma run_steps_ok:
  assumes "wf_net s" and "run_inv T s" and "length (Is s) = neuron_num s"
    and "model_type s = ''LIF'' \<or> model_type s = ''SFA''"
    and "\<forall>it\<in>set its. row_ok s ty (I ! (fst it - 1))"
  shows "\<exists>s'. run_steps ty I its s = (None, s') \<and> run_inv T s'
           \<and> length (Is s') = neuron_num s \<and> steps_done ty I its s = length its"
  using assms
proof (induction its arbitrary: s)
  case Nil
  then show ?case by simp
next
  case (Cons it its)
  obtain i tc where it: "it = (i, tc)" by (cases it)
  have row: "row_ok s ty (I ! (i - 1))"
    using Cons.prems(5) it by simp
  from step_ok[OF Cons.prems(1,2,3,4) row, of tc] obtain s1 where
    st: "step ty I (i, tc) s = (None, s1)" and r1: "run_inv T s1"
    and l1: "length (Is s1) = neuron_num s" by blast
  have f: "same_frame s s1" by (rule same_frame_step[OF st])
  note sf = static_fields[OF f]
  have wf1: "wf_net s1" by (rule wf_net_frame[OF f Cons.prems(1)])
  have l1': "length (Is s1) = neuron_num s1" using l1 sf(7) by simp
  have mt1: "model_type s1 = ''LIF'' \<or> model_type s1 = ''SFA''" using Cons.prems(4) sf(12) by simp
  have rows1: "\<forall>it\<in>set its. row_ok s1 ty (I ! (fst it - 1))"
    using Cons.prems(5) row_ok_frame[OF sf(7,8)] by simp
  from Cons.IH[OF wf1 r1 l1' mt1 rows1] obtain s' where
    "run_steps ty I its s1 = (None, s')" "run_inv T s'" "length (Is s') = neuron_num s1"
    "steps_done ty I its s1 = length its" by blast
  then show ?case using st it sf(7) by simp
qed

lemma schedule_fst:
  assumes "it \<in> set (take k (schedule s T))"
  shows "1 \<le> fst it \<and> fst it \<le> T"
proof -
  obtain i tc where it: "it = (i, tc)" by (cases it)
  from assms have "it \<in> set (schedule s T)" by (rule in_set_takeD)
  then have "(i, tc) \<in> set (zip [1..<Suc T] (linspace (dt s) (real T * dt s) T))"
    unfolding schedule_def it .
  then have "i \<in> set [1..<Suc T]" by (rule set_zip_leftD)
  then have "1 \<le> i \<and> i < Suc T" unfolding set_upt by simp
  then show ?thesis unfolding it by simp
qed

lemma after_steps_all: "after_steps s I ty (length I) = run_model s I ty"
  by (simp add: after_steps_def run_model_def length_schedule)

lemma after_steps_ok:
  assumes wf: "wf_net s" and mt: "model_type s = ''LIF'' \<or> model_type s = ''SFA''"
    and bc: "broadcastable s I ty" and k: "k \<le> length I"
  shows "\<exists>s'. after_steps s I ty k = (None, s') \<and> run_inv (length I) s'
           \<and> length (Is s') = neuron_num s
           \<and> steps_done ty I (take k (schedule s (length I))) (start_run s I) = k"
proof -
  let ?s0 = "start_run s I"
  have f: "same_frame s ?s0" by (rule same_frame_start_run)
  note sf = static_fields[OF f]
  have wf0: "wf_net ?s0" by (rule wf_net_frame[OF f wf])
  have r0: "run_inv (length I) ?s0" by (rule run_inv_start_run)
  have l0: "length (Is ?s0) = neuron_num ?s0" using sf(7) by (simp add: start_run_fields)
  have mt0: "model_type ?s0 = ''LIF'' \<or> model_type ?s0 = ''SFA''" using mt sf(12) by simp
  have rows: "\<forall>it\<in>set (take k (schedule s (length I))). row_ok ?s0 ty (I ! (fst it - 1))"
  proof
    fix it
    assume "it \<in> set (take k (schedule s (length I)))"
    from schedule_fst[OF this] have "fst it - 1 < length I" by linarith
    then have "row_ok s ty (I ! (fst it - 1))"
      using bc by (simp add: broadcastable_def list_all_length)
    then show "row_ok ?s0 ty (I ! (fst it - 1))"
      using row_ok_frame[OF sf(7,8)] by simp
  qed
  from run_steps_ok[OF wf0 r0 l0 mt0 rows] k sf(7)
  show ?thesis by (simp add: after_steps_def length_schedule)
qed

lemma conforming_broadcastable: "conforming s I ty \<Longrightarrow> broadcastable s I ty"
  by (simp add: conforming_def broadcastable_def row_ok_def list_all_length)

section \<open>What an iteration that does not raise preserves\<close>

lemma put_idx_length: "put_idx xs idx vals = Inr ys \<Longrightarrow> length ys = length xs"
proof -
  have a: "length (fold (\<lambda>kv acc. acc[fst kv := snd kv]) kvs xs) = length xs" for kvs :: "(nat \<times> real) list"
    by (induction kvs arbitrary: xs) auto
  assume "put_idx xs idx vals = Inr ys"
  then show ?thesis
    by (auto simp: put_idx_def a length_fold_update split: if_splits)
qed

lemma external_current_dyn:
  "external_current ty row tc s = (x, s') \<Longrightarrow> \<exists>it. s' = s\<lparr>input_t := it\<rparr>"
proof (cases ty)
  case False
  assume "external_current ty row tc s = (x, s')"
  then have "s' = s\<lparr>input_t := input_t s\<rparr>" using False by (simp add: external_current_def)
  then show ?thesis by blast
next
  case True
  assume a: "external_current ty row tc s = (x, s')"
  show ?thesis
  proof (cases "fill_idx (input_t s) (nonzero (map (\<lambda>x. x \<noteq> 0) row)) tc")
    case (Inl e)
    then have "s' = s\<lparr>input_t := input_t s\<rparr>" using a True by (simp add: external_current_def)
    then show ?thesis by blast
  next
    case (Inr it)
    then have "s' = s\<lparr>input_t := it\<rparr>" using a True
      by (auto simp: external_current_def Let_def split: sum.splits)
    then show ?thesis by blast
  qed
qed

lemma call_model_inv:
  assumes "call_model s = (r, s1)" and "run_inv T s"
  shows "run_inv T s1 \<and> Vs s1 = Vs s \<and> spikes_t s1 = spikes_t s \<and> active s1 = active s"
proof (cases "model s")
  case None
  then show ?thesis using assms by (simp add: call_model_def)
next
  case (Some k)
  show ?thesis
  proof (cases k)
    case LIF_kernel
    then show ?thesis using assms Some by (simp add: call_model_def)
  next
    case SFA_kernel
    let ?s2 = "(K_frac s)\<lparr>Ia := map2 (\<lambda>nj v. gk (K_frac s) * nj * (v - Vk (K_frac s)))
                   (n_open (K_frac s)) (Vs (K_frac s))\<rparr>"
    have "snd (SFA s) = ?s2"
      by (simp add: SFA_def Let_def split: sum.splits)
    then have s1: "s1 = ?s2" using assms(1) Some SFA_kernel by (simp add: call_model_def)
    show ?thesis using assms(2) unfolding s1 by (simp add: run_inv_def K_frac_def)
  qed
qed

lemma integrate_None_inv:
  assumes "integrate s = (None, s3)" and "run_inv T s"
  shows "run_inv T s3 \<and> spikes_t s3 = spikes_t s \<and> active s3 = active s"
proof -
  from assms(1) obtain act v0 d s1 v1 vs' where
    cm: "call_model s = (Inr d, s1)" and pi: "put_idx (Vs s1) act v1 = Inr vs'"
    and s3: "s3 = s1\<lparr>Vs := vs'\<rparr>"
    by (auto simp: integrate_def split: option.splits sum.splits prod.splits)
  from call_model_inv[OF cm assms(2)] have r1: "run_inv T s1" "spikes_t s1 = spikes_t s"
    "active s1 = active s" by simp_all
  have "length vs' = length (Vs s1)" by (rule put_idx_length[OF pi])
  then show ?thesis using r1 by (simp add: s3 run_inv_def)
qed

lemma propagate_None_D:
  assumes "propagate s = (None, s4)"
  shows "\<exists>ep. s4 = s\<lparr>EPSC := ep\<rparr>
           \<and> (wf_net s \<longrightarrow> length (Vs s) = neuron_num s \<longrightarrow> length ep = neuron_num s)"
proof -
  from assms obtain isyn where sc: "call_synaptic_current s = Inr isyn"
    by (auto simp: propagate_def split: sum.splits)
  then obtain k where k: "synaptic_current s = Some k"
    by (auto simp: call_synaptic_current_def split: option.splits)
  from propagate_ok[OF k] obtain ep where
    pr: "propagate s = (None, s\<lparr>EPSC := ep\<rparr>)"
    and l: "length (connections s) = neuron_num s \<longrightarrow> length (connections_bool s) = neuron_num s
                \<longrightarrow> length (Vs s) = neuron_num s \<longrightarrow> length ep = neuron_num s" by blast
  have "wf_net s \<longrightarrow> length (Vs s) = neuron_num s \<longrightarrow> length ep = neuron_num s"
    using l by (simp add: wf_net_def mat_shape_def mask_of_def)
  then show ?thesis using pr assms by auto
qed

lemma finish_step_None_E:
  assumes "finish_step i tc I_cur s3 = (None, s')"
  shows "\<exists>ep v. s' = (settle (record_step i ((fire tc s3)\<lparr>EPSC := ep\<rparr>)))\<lparr>Is := v\<rparr>
           \<and> propagate (fire tc s3) = (None, (fire tc s3)\<lparr>EPSC := ep\<rparr>)
           \<and> (wf_net s3 \<longrightarrow> length (Vs s3) = neuron_num s3 \<longrightarrow> length ep = neuron_num s3)"
proof -
  from finish_step_None_D[OF assms] obtain s4 v where
    pr: "propagate (fire tc s3) = (None, s4)"
    and s': "s' = (settle (record_step i s4))\<lparr>Is := v\<rparr>" by blast
  from propagate_None_D[OF pr] obtain ep where
    s4: "s4 = (fire tc s3)\<lparr>EPSC := ep\<rparr>"
    and l: "wf_net (fire tc s3) \<longrightarrow> length (Vs (fire tc s3)) = neuron_num (fire tc s3)
              \<longrightarrow> length ep = neuron_num (fire tc s3)" by blast
  have w: "wf_net s3 \<Longrightarrow> wf_net (fire tc s3)"
    by (rule wf_net_frame[OF same_frame_fire])
  have "wf_net s3 \<longrightarrow> length (Vs s3) = neuron_num s3 \<longrightarrow> length ep = neuron_num s3"
    using l w by (simp add: fire_def Let_def)
  then show ?thesis using s' s4 pr by blast
qed

lemma finish_step_None_inv:
  assumes "finish_step i tc I_cur s3 = (None, s')" and "wf_net s3" and "run_inv T s3"
  shows "run_inv T s'"
proof -
  note ln = run_inv_lengths[OF assms(3)]
  from finish_step_None_E[OF assms(1)] assms(2) ln(1) obtain ep v where
    s': "s' = (settle (record_step i ((fire tc s3)\<lparr>EPSC := ep\<rparr>)))\<lparr>Is := v\<rparr>"
    and lep: "length ep = neuron_num s3" by blast
  let ?s4 = "(fire tc s3)\<lparr>EPSC := ep\<rparr>"
  have r4: "run_inv T ?s4"
    using assms(3) lep by (simp add: run_inv_def fire_def Let_def)
  have r5: "run_inv T (record_step i ?s4)"
    using r4 by (auto simp: run_inv_def record_step_def mat_shape_set_col)
  show ?thesis
    unfolding s' using r5 by (simp add: run_inv_def settle_def record_step_fields)
qed

lemma step_None_inv:
  assumes "step ty I (i, tc) s = (None, s')" and "wf_net s" and "run_inv T s"
  shows "run_inv T s'"
proof -
  from step_None_D[OF assms(1)] obtain I_cur s2 s3 where
    ec: "external_current ty (I ! (i - 1)) tc (active_set (s\<lparr>t_now := tc\<rparr>)) = (Inr I_cur, s2)"
    and ig: "integrate s2 = (None, s3)"
    and fin: "finish_step i tc I_cur s3 = (None, s')" by blast
  from external_current_dyn[OF ec] obtain it where
    s2: "s2 = (active_set (s\<lparr>t_now := tc\<rparr>))\<lparr>input_t := it\<rparr>" by blast
  have r2: "run_inv T s2" unfolding s2 by (rule run_inv_begin[OF assms(3)])
  from integrate_None_inv[OF ig r2] have r3: "run_inv T s3" by simp
  have f3: "same_frame s s3"
    using same_frame_trans[OF same_frame_trans[OF same_frame_active_set
          same_frame_external_current[OF ec]] same_frame_integrate[OF ig]] .
  have wf3: "wf_net s3" by (rule wf_net_frame[OF f3 assms(2)])
  show ?thesis by (rule finish_step_None_inv[OF fin wf3 r3])
qed

lemma run_steps_None_inv:
  assumes "run_steps ty I its s = (None, s')" and "wf_net s" and "run_inv T s"
  shows "run_inv T s'"
  using assms
proof (induction its arbitrary: s)
  case Nil
  then show ?case by simp
next
  case (Cons it its)
  obtain i tc where it: "it = (i, tc)" by (cases it)
  from Cons.prems(1) obtain s1 where st: "step ty I (i, tc) s = (None, s1)"
    and rest: "run_steps ty I its s1 = (None, s')"
    by (auto simp: it split: prod.splits option.splits)
  have r1: "run_inv T s1" by (rule step_None_inv[OF st Cons.prems(2,3)])
  have wf1: "wf_net s1" by (rule wf_net_frame[OF same_frame_step[OF st] Cons.prems(2)])
  show ?case by (rule Cons.IH[OF rest wf1 r1])
qed

lemma after_steps_inv:
  assumes "after_steps s I ty k = (None, sk)" and "wf_net s"
  shows "run_inv (length I) sk" and "same_frame s sk" and "wf_net sk"
proof -
  have f0: "same_frame s (start_run s I)" by (rule same_frame_start_run)
  have wf0: "wf_net (start_run s I)" by (rule wf_net_frame[OF f0 assms(2)])
  from assms(1) have rs: "run_steps ty I (take k (schedule s (length I))) (start_run s I) = (None, sk)"
    by (simp add: after_steps_def)
  show "run_inv (length I) sk"
    by (rule run_steps_None_inv[OF rs wf0 run_inv_start_run])
  show f: "same_frame s sk"
    by (rule same_frame_trans[OF f0 same_frame_run_steps[OF rs]])
  show "wf_net sk" by (rule wf_net_frame[OF f assms(2)])
qed

lemma run_steps_append:
  "run_steps ty I (xs @ ys) s =
     (case run_steps ty I xs s of (Some e, s') \<Rightarrow> (Some e, s') | (None, s') \<Rightarrow> run_steps ty I ys s')"
  by (induction xs arbitrary: s) (auto split: prod.splits option.splits)

lemma after_steps_Suc:
  assumes "k < length I" and "after_steps s I ty k = (None, sk)"
  shows "after_steps s I ty (Suc k) = step ty I (Suc k, real (Suc k) * dt s) sk"
proof -
  have "take (Suc k) (schedule s (length I)) = take k (schedule s (length I)) @ [schedule s (length I) ! k]"
    by (rule take_Suc_conv_app_nth) (use assms(1) in \<open>simp add: length_schedule\<close>)
  then show ?thesis
    using assms schedule_nth[OF assms(1), of s]
    by (simp add: after_steps_def run_steps_append split: prod.splits option.splits)
qed


section \<open>Arrays of the wrong shape\<close>

lemma run_model_ok:
  assumes "wf_net s" and "model_type s = ''LIF'' \<or> model_type s = ''SFA''"
    and "broadcastable s I ty"
  shows "fst (run_model s I ty) = None \<and> iterations s I ty = length I"
proof -
  from after_steps_ok[OF assms, of "length I"] obtain s' where
    "after_steps s I ty (length I) = (None, s')"
    "steps_done ty I (take (length I) (schedule s (length I))) (start_run s I) = length I"
    by auto
  then show ?thesis
    by (simp add: after_steps_all iterations_def length_schedule)
qed

lemma runs_wf:
  assumes "Network c inh rnd = Inr s0"
  shows "wf_net (runs s0 calls)" and "model_type (runs s0 calls) = c_model c"
    and "neuron_num (runs s0 calls) = neuron_num s0" and "input_num (runs s0 calls) = input_num s0"
    and "dt (runs s0 calls) = dt s0" and "Vreset (runs s0 calls) = c_Vth c - c_Vreset c"
    and "Vth (runs s0 calls) = c_Vth c" and "keep_data (runs s0 calls) = keep_data s0"
    and "Vr (runs s0 calls) = Vr s0" and "tau (runs s0 calls) = tau s0"
proof -
  have f: "same_frame s0 (runs s0 calls)" by (rule same_frame_runs)
  note sf = static_fields[OF f]
  note fl = Network_fields[OF assms]
  show "wf_net (runs s0 calls)" by (rule wf_net_frame[OF f Network_invs(3)[OF assms]])
  show "model_type (runs s0 calls) = c_model c" using sf(12) fl(9) by simp
  show "neuron_num (runs s0 calls) = neuron_num s0" by (rule sf(7))
  show "input_num (runs s0 calls) = input_num s0" by (rule sf(8))
  show "dt (runs s0 calls) = dt s0" by (rule sf(6))
  show "Vreset (runs s0 calls) = c_Vth c - c_Vreset c" using sf(3) fl(5) by simp
  show "Vth (runs s0 calls) = c_Vth c" using sf(1) fl(6) by simp
  show "keep_data (runs s0 calls) = keep_data s0" by (rule sf(11))
  show "Vr (runs s0 calls) = Vr s0" by (rule sf(2))
  show "tau (runs s0 calls) = tau s0" by (rule sf(5))
qed

lemma finish_step_t_now:
  "finish_step i tc I_cur s = (r, s') \<Longrightarrow> t_now s' = t_now s"
  by (auto simp: finish_step_def propagate_def fire_def settle_def record_step_def Let_def
      split: prod.splits sum.splits option.splits if_splits)

lemma finish_step_fail:
  assumes wf: "wf_net s" and ri: "run_inv T s"
    and mt: "model_type s = ''LIF'' \<or> model_type s = ''SFA''"
    and l: "length I_cur \<noteq> neuron_num s" "length I_cur \<noteq> 1" "neuron_num s \<noteq> 1"
  shows "\<exists>s'. finish_step i tc I_cur s = (Some ValueError, s')"
proof -
  note ln = run_inv_lengths[OF ri]
  from wf_kernel[OF wf mt] obtain k where k: "synaptic_current s = Some k" by blast
  let ?f = "fire tc s"
  have kf: "synaptic_current ?f = Some k" using k by (simp add: fire_def Let_def)
  have shp: "length (connections ?f) = neuron_num ?f" "length (connections_bool ?f) = neuron_num ?f"
    "length (Vs ?f) = neuron_num ?f"
    using wf ln by (simp_all add: fire_def Let_def wf_net_def mat_shape_def mask_of_def)
  from propagate_ok[OF kf] shp obtain ep where
    pr: "propagate ?f = (None, ?f\<lparr>EPSC := ep\<rparr>)" and lep: "length ep = neuron_num ?f"
    by blast
  let ?s5 = "settle (record_step i (?f\<lparr>EPSC := ep\<rparr>))"
  have e5: "EPSC ?s5 = ep" by (simp add: settle_def record_step_def)
  have n5: "neuron_num ?f = neuron_num s" by (simp add: fire_def Let_def)
  have bc: "bcast (+) I_cur (EPSC ?s5) = Inl ValueError"
    using l lep n5 e5 by (simp add: bcast_def)
  show ?thesis using pr bc by (simp add: finish_step_def Let_def)
qed

lemma step_fail:
  assumes wf: "wf_net s" and ri: "run_inv T s" and li: "length (Is s) = neuron_num s"
    and mt: "model_type s = ''LIF'' \<or> model_type s = ''SFA''"
    and l: "length (I ! (i - 1)) \<noteq> neuron_num s" "length (I ! (i - 1)) \<noteq> 1" "neuron_num s \<noteq> 1"
  shows "\<exists>s'. step False I (i, tc) s = (Some ValueError, s') \<and> t_now s' = tc"
proof -
  let ?s1 = "active_set (s\<lparr>t_now := tc\<rparr>)"
  note ln = run_inv_lengths[OF ri]
  have f1: "same_frame s ?s1" by (rule same_frame_active_set)
  note sf1 = static_fields[OF f1]
  have ec: "external_current False (I ! (i - 1)) tc ?s1 = (Inr (I ! (i - 1)), ?s1\<lparr>input_t := input_t ?s1\<rparr>)"
    by (simp add: external_current_def)
  let ?s2 = "?s1\<lparr>input_t := input_t ?s1\<rparr>"
  have f2: "same_frame s ?s2"
    using same_frame_trans[OF f1 same_frame_external_current[OF ec]] .
  note sf2 = static_fields[OF f2]
  have wf2: "wf_net ?s2" by (rule wf_net_frame[OF f2 wf])
  have r2: "run_inv T ?s2" by (rule run_inv_begin[OF ri])
  have mt2: "model_type ?s2 = ''LIF'' \<or> model_type ?s2 = ''SFA''" using mt sf2(12) by simp
  have a1: "list_all (\<lambda>k. k < neuron_num ?s2) (active ?s2)"
    using active_begin(3)[OF ln(2) mt, where tc = tc and it = "input_t ?s1"] sf2(7) by simp
  have a2: "model_type ?s2 = ''SFA'' \<longrightarrow> active ?s2 = [0..<neuron_num ?s2]"
    using active_begin(2)[OF ln(2), where tc = tc and it = "input_t ?s1"] sf2(7,12) by simp
  have li2: "length (Is ?s2) = neuron_num ?s2" using li by (simp add: active_set_def)
  from integrate_ok[OF wf2 r2 li2 mt2 a1 a2] obtain s3 where
    ig: "integrate ?s2 = (None, s3)" and r3: "run_inv T s3" by blast
  have f23: "same_frame ?s2 s3" by (rule same_frame_integrate[OF ig])
  have f3: "same_frame s s3" using same_frame_trans[OF f2 f23] .
  note sf3 = static_fields[OF f3]
  have wf3: "wf_net s3" by (rule wf_net_frame[OF f3 wf])
  have mt3: "model_type s3 = ''LIF'' \<or> model_type s3 = ''SFA''" using mt sf3(12) by simp
  have l3: "length (I ! (i - 1)) \<noteq> neuron_num s3" "neuron_num s3 \<noteq> 1" using l sf3(7) by simp_all
  from finish_step_fail[OF wf3 r3 mt3 l3(1) l(2) l3(2), of i tc] obtain s' where
    fin: "finish_step i tc (I ! (i - 1)) s3 = (Some ValueError, s')" by blast
  have t3: "t_now s3 = tc"
  proof -
    from ig have "t_now s3 = t_now ?s2"
      by (auto simp: integrate_def call_model_def SFA_def K_frac_def Let_def
          split: option.splits sum.splits prod.splits kernel.splits)
    then show ?thesis by (simp add: active_set_def)
  qed
  have "t_now s' = tc" using finish_step_t_now[OF fin] t3 by simp
  moreover have "step False I (i, tc) s = (Some ValueError, s')"
    using ec ig fin by (simp add: step_def Let_def)
  ultimately show ?thesis by blast
qed


lemma run_model_fail:
  assumes wf: "wf_net s" and mt: "model_type s = ''LIF'' \<or> model_type s = ''SFA''"
    and ne: "I \<noteq> []"
    and l: "length (I ! 0) \<noteq> neuron_num s" "length (I ! 0) \<noteq> 1" "neuron_num s \<noteq> 1"
  shows "\<exists>s'. run_model s I False = (Some ValueError, s') \<and> t_now s' = dt s
           \<and> iterations s I False = 0"
proof -
  let ?s0 = "start_run s I"
  have f: "same_frame s ?s0" by (rule same_frame_start_run)
  note sf = static_fields[OF f]
  have wf0: "wf_net ?s0" by (rule wf_net_frame[OF f wf])
  have r0: "run_inv (length I) ?s0" by (rule run_inv_start_run)
  have l0: "length (Is ?s0) = neuron_num ?s0" using sf(7) by (simp add: start_run_fields)
  have mt0: "model_type ?s0 = ''LIF'' \<or> model_type ?s0 = ''SFA''" using mt sf(12) by simp
  have l': "length (I ! (1 - 1)) \<noteq> neuron_num ?s0" "length (I ! (1 - 1)) \<noteq> 1" "neuron_num ?s0 \<noteq> 1"
    using l sf(7) by simp_all
  from ne have "0 < length I" by simp
  from schedule_Cons[OF this] obtain rest where
    sc: "schedule s (length I) = (1, dt s) # rest" by blast
  from step_fail[OF wf0 r0 l0 mt0 l', of "dt s"] obtain s' where
    st: "step False I (1, dt s) ?s0 = (Some ValueError, s')" and t: "t_now s' = dt s" by blast
  have "run_model s I False = (Some ValueError, s')"
    using st by (simp add: run_model_def sc)
  moreover have "iterations s I False = 0"
    using st by (simp add: iterations_def sc)
  ultimately show ?thesis using t by blast
qed

text \<open>
  Claim C8, as amended.  \<open>run_model\<close> makes no check of the shape of the injected array
  before its loop.  On a constructed LIF or SFA network, also after earlier calls: for
  every conforming array the call does not raise and the loop runs \<open>I.shape[0]\<close>
  iterations; with \<open>input_type = 0\<close> an array whose rows have a single entry is broadcast
  over the neurons and runs all its iterations as well; with \<open>input_type = 0\<close> a first
  row whose length is neither 1 nor the neuron count, on a network of other than one
  neuron, makes the first iteration raise ValueError at its last statement, when the
  state has been reset and the time is that of the first step.
\<close>

theorem no_shape_check_before_loop:
  assumes "Network c inh rnd = Inr s0" and "c_model c = ''LIF'' \<or> c_model c = ''SFA''"
  shows "(conforming s0 I ty \<longrightarrow>
            fst (run_model (runs s0 calls) I ty) = None
          \<and> iterations (runs s0 calls) I ty = length I)
       \<and> (list_all (\<lambda>row. length row = 1) I \<longrightarrow>
            fst (run_model (runs s0 calls) I False) = None
          \<and> iterations (runs s0 calls) I False = length I)
       \<and> (I \<noteq> [] \<and> length (I ! 0) \<noteq> neuron_num s0 \<and> length (I ! 0) \<noteq> 1 \<and> neuron_num s0 \<noteq> 1 \<longrightarrow>
            fst (run_model (runs s0 calls) I False) = Some ValueError
          \<and> iterations (runs s0 calls) I False = 0
          \<and> t_now (snd (run_model (runs s0 calls) I False)) = dt s0)"
proof -
  let ?s = "runs s0 calls"
  note rw = runs_wf[OF assms(1), of calls]
  have mt: "model_type ?s = ''LIF'' \<or> model_type ?s = ''SFA''" using rw(2) assms(2) by simp
  have a: "fst (run_model ?s I ty) = None \<and> iterations ?s I ty = length I"
    if "conforming s0 I ty"
  proof -
    have "conforming ?s I ty" using that unfolding conforming_def rw(3,4) .
    from run_model_ok[OF rw(1) mt conforming_broadcastable[OF this]] show ?thesis .
  qed
  have b: "fst (run_model ?s I False) = None \<and> iterations ?s I False = length I"
    if "list_all (\<lambda>row. length row = 1) I"
  proof -
    have "broadcastable ?s I False"
      using that by (simp add: broadcastable_def row_ok_def list_all_length)
    from run_model_ok[OF rw(1) mt this] show ?thesis .
  qed
  have c: "fst (run_model ?s I False) = Some ValueError \<and> iterations ?s I False = 0
          \<and> t_now (snd (run_model ?s I False)) = dt s0"
    if "I \<noteq> [] \<and> length (I ! 0) \<noteq> neuron_num s0 \<and> length (I ! 0) \<noteq> 1 \<and> neuron_num s0 \<noteq> 1"
  proof -
    have "I \<noteq> []" "length (I ! 0) \<noteq> neuron_num ?s" "length (I ! 0) \<noteq> 1" "neuron_num ?s \<noteq> 1"
      using that rw(3) by simp_all
    from run_model_fail[OF rw(1) mt this] rw(5) show ?thesis by auto
  qed
  show ?thesis using a b c by blast
qed

text \<open>The small network as an instance of C8 as amended: a conforming array of two rows,
  and an array of three channels for two neurons.\<close>

theorem no_shape_check_before_loop_witness:
  "Network small_config [0] zero_draws = Inr small_net
   \<and> (c_model small_config = ''LIF'' \<or> c_model small_config = ''SFA'')
   \<and> conforming small_net [[0, 0], [1, 2]] False
   \<and> fst (run_model (runs small_net []) [[0, 0], [1, 2]] False) = None
   \<and> iterations (runs small_net []) [[0, 0], [1, 2]] False = 2
   \<and> fst (run_model (runs small_net []) [[0, 0, 0]] False) = Some ValueError
   \<and> t_now (snd (run_model (runs small_net []) [[0, 0, 0]] False)) = dt small_net"
proof -
  have m: "c_model small_config = ''LIF'' \<or> c_model small_config = ''SFA''"
    by (simp add: small_config_def default_config_def)
  have cf: "conforming small_net [[0, 0], [1, 2]] False"
    by (simp add: conforming_def small_net_def)
  have nc: "[[0, 0, 0 :: real]] \<noteq> [] \<and> length ([[0, 0, 0 :: real]] ! 0) \<noteq> neuron_num small_net
      \<and> length ([[0, 0, 0 :: real]] ! 0) \<noteq> 1 \<and> neuron_num small_net \<noteq> 1"
    by (simp add: small_net_def)
  from no_shape_check_before_loop[OF Network_small m, of "[[0, 0], [1, 2]]" False "[]"] cf
  have a: "fst (run_model (runs small_net []) [[0, 0], [1, 2]] False) = None
   \<and> iterations (runs small_net []) [[0, 0], [1, 2]] False = 2" by simp
  from no_shape_check_before_loop[OF Network_small m, of "[[0, 0, 0]]" False "[]"] nc
  have b: "fst (run_model (runs small_net []) [[0, 0, 0]] False) = Some ValueError
   \<and> t_now (snd (run_model (runs small_net []) [[0, 0, 0]] False)) = dt small_net" by blast
  show ?thesis using Network_small m cf a b by blast
qed

text \<open>
  Claim C8 as it is stated fails.  The array \<open>[[0]]\<close> has one channel, the small network
  has two neurons, and with \<open>input_type = 0\<close> the call does not raise: the row is
  broadcast in \<open>I_cur + self.EPSC\<close> and the iteration runs to its end.
\<close>

theorem shape_check_counterexample:
  "\<not> conforming small_net [[0]] False
   \<and> fst (run_model small_net [[0]] False) = None
   \<and> iterations small_net [[0]] False = 1"
proof -
  have wf: "wf_net small_net" by (rule Network_invs(3)[OF Network_small])
  have mt: "model_type small_net = ''LIF'' \<or> model_type small_net = ''SFA''"
    by (simp add: small_net_def)
  have bc: "broadcastable small_net [[0]] False"
    by (simp add: broadcastable_def row_ok_def)
  have nc: "\<not> conforming small_net [[0]] False"
    by (simp add: conforming_def small_net_def)
  from run_model_ok[OF wf mt bc] nc show ?thesis by simp
qed


section \<open>Zero input\<close>

lemma map2_replicate_left:
  "length ys = n \<Longrightarrow> map2 f (replicate n a) ys = map (f a) ys"
  by (induction ys arbitrary: n) auto

lemma sum_list_mult_zeros: "sum_list (map2 (*) row (replicate n (0::real))) = 0"
proof (induction row arbitrary: n)
  case Nil
  then show ?case by simp
next
  case (Cons x xs)
  then show ?case by (cases n) simp_all
qed

lemma dot_zeros: "dot M (replicate n 0) = replicate (length M) 0"
  by (simp add: dot_def sum_list_mult_zeros map_replicate_const)

lemma replicate_update_same: "(replicate c x)[i := x] = replicate c x"
proof (rule nth_equalityI)
  show "length ((replicate c x)[i := x]) = length (replicate c x)" by simp
next
  fix j
  assume "j < length ((replicate c x)[i := x])"
  then show "(replicate c x)[i := x] ! j = replicate c x ! j"
    by (cases "i < c") (simp_all add: nth_list_update)
qed

lemma set_col_zeros: "set_col (zeros2 r c) i (replicate r 0) = zeros2 r c"
  by (simp add: set_col_def zeros2_def replicate_update_same)

lemma put_replicate:
  assumes "\<forall>v\<in>set vals. v = c"
  shows "put (replicate n c) idx vals = replicate n c"
proof (rule replicate_eqI)
  show "length (put (replicate n c) idx vals) = n" by (simp add: length_put)
next
  fix y
  assume "y \<in> set (put (replicate n c) idx vals)"
  then have "y \<in> set (replicate n c) \<union> set vals" using set_put by blast
  then show "y = c" using assms by auto
qed

lemma integrate_quiet:
  assumes "model s = Some LIF_kernel" and "model_type s = ''LIF''"
    and "list_all (\<lambda>k. k < neuron_num s) (active s)"
    and "Vs s = replicate (neuron_num s) (Vr s)" and "Is s = replicate (neuron_num s) 0"
  shows "integrate s = (None, s)"
proof -
  let ?f = "\<lambda>k. Vs s ! k + dt s * ((Vr s - Vs s ! k + Is s ! k * R_m s) / tau s)"
  have lt: "list_all (\<lambda>k. k < length (Vs s)) (active s)" "list_all (\<lambda>k. k < length (Is s)) (active s)"
    using assms(3,4,5) by simp_all
  have "\<forall>v\<in>set (map ?f (active s)). v = Vr s"
  proof
    fix v
    assume "v \<in> set (map ?f (active s))"
    then obtain k where k: "k \<in> set (active s)" and v: "v = ?f k" by auto
    from k assms(3) have "k < neuron_num s" by (simp add: list_all_iff)
    then have "Vs s ! k = Vr s" "Is s ! k = 0" using assms(4,5) by simp_all
    then show "v = Vr s" using v by simp
  qed
  then have "put (replicate (neuron_num s) (Vr s)) (active s) (map ?f (active s))
               = replicate (neuron_num s) (Vr s)"
    by (rule put_replicate)
  then have "put (Vs s) (active s) (map ?f (active s)) = Vs s" using assms(4) by simp
  then show ?thesis using integrate_LIF_ok[OF assms(1,2) lt] by simp
qed

lemma finish_step_quiet:
  assumes sc: "synaptic_current s = Some LIF_kernel" and mt: "model_type s = ''LIF''"
    and v: "Vs s = replicate (neuron_num s) (Vr s)"
    and st: "spikes_t s = replicate (neuron_num s) (- 1)"
    and le: "Vr s \<le> Vth s"
    and lta: "length (type_array s) = neuron_num s"
    and lc: "length (connections s) = neuron_num s"
    and ic: "I_cur = replicate (neuron_num s) 0"
    and h: "keep_data s \<longrightarrow> spikes_seq s = zeros2 (neuron_num s) (Suc T)"
  shows "\<exists>s'. finish_step i tc I_cur s = (None, s')
           \<and> Vs s' = replicate (neuron_num s) (Vr s)
           \<and> spikes_t s' = replicate (neuron_num s) (- 1)
           \<and> spikes s' = replicate (neuron_num s) False
           \<and> EPSC s' = replicate (neuron_num s) 0
           \<and> Is s' = replicate (neuron_num s) 0
           \<and> synaptic_current_LIF s' = replicate (neuron_num s) 0
           \<and> (keep_data s \<longrightarrow> spikes_seq s' = zeros2 (neuron_num s) (Suc T))"
proof -
  let ?N = "neuron_num s"
  let ?f = "fire tc s"
  have nsp: "map (\<lambda>v. v > Vth s) (Vs s) = replicate ?N False"
    using v le by simp
  have f: "spikes ?f = replicate ?N False" "spikes_t ?f = replicate ?N (- 1)"
    "Vs ?f = replicate ?N (Vr s)"
    using v st nsp by (simp_all add: fire_def Let_def)
  have sl: "synaptic_current_LIF x = replicate ?N 0"
    if "spikes_t x = replicate ?N (- 1)" "type_array x = type_array s" for x
    using that lta by (simp add: synaptic_current_LIF_def map2_replicate_left map_replicate_const)
  have slf: "synaptic_current_LIF ?f = replicate ?N 0"
    by (rule sl) (simp_all add: f, simp add: fire_def Let_def)
  have pr: "propagate ?f = (None, ?f\<lparr>EPSC := replicate ?N 0\<rparr>)"
    using sc mt slf lc
    by (simp add: propagate_def call_synaptic_current_def dot_zeros)
      (simp add: fire_def Let_def dot_zeros)
  let ?s4 = "?f\<lparr>EPSC := replicate ?N 0\<rparr>"
  let ?s5 = "settle (record_step i ?s4)"
  have e5: "EPSC ?s5 = replicate ?N 0" by (simp add: settle_def record_step_def)
  have bc: "bcast (+) I_cur (EPSC ?s5) = Inr (replicate ?N 0)"
    using ic e5 by (simp add: bcast_def)
  have fin: "finish_step i tc I_cur s = (None, ?s5\<lparr>Is := replicate ?N 0\<rparr>)"
    using pr bc by (simp add: finish_step_def Let_def)
  let ?s' = "?s5\<lparr>Is := replicate ?N 0\<rparr>"
  have vs': "Vs ?s' = replicate ?N (Vr s)"
    using f by (simp add: settle_def record_step_fields)
  have st': "spikes_t ?s' = replicate ?N (- 1)"
    using f by (simp add: settle_def record_step_fields)
  have sp': "spikes ?s' = replicate ?N False"
    using f by (simp add: settle_def record_step_fields)
  have ta': "type_array ?s' = type_array s"
    by (simp add: settle_def record_step_def fire_def Let_def)
  have hs: "keep_data s \<longrightarrow> spikes_seq ?s' = zeros2 ?N (Suc T)"
    using h nsp by (simp add: settle_def record_step_def set_col_zeros fire_def Let_def)
  show ?thesis
    using fin vs' st' sp' e5 sl[OF st' ta'] hs by (intro exI[of _ ?s']) simp
qed


lemma quiet_start_run:
  assumes "wf_net s"
  shows "quiet (length I) (start_run s I)"
proof -
  have "length (type_array (start_run s I)) = neuron_num s"
    using assms by (simp add: start_run_def reset_history_def Let_def wf_net_def length_fold_update)
  then have "synaptic_current_LIF (start_run s I) = replicate (neuron_num s) 0"
    by (simp add: synaptic_current_LIF_def start_run_fields map2_replicate_left map_replicate_const)
  moreover have "keep_data (start_run s I) \<longrightarrow>
      spikes_seq (start_run s I) = zeros2 (neuron_num s) (Suc (length I))"
    by (simp add: start_run_def reset_history_def Let_def)
  moreover have "neuron_num (start_run s I) = neuron_num s" "Vr (start_run s I) = Vr s"
    using static_fields(7,2)[OF same_frame_start_run] by simp_all
  ultimately show ?thesis by (simp add: quiet_def start_run_fields)
qed

lemma step_quiet:
  assumes wf: "wf_net s" and mt: "model_type s = ''LIF''" and q: "quiet T s"
    and le: "Vr s \<le> Vth s" and row: "I ! (i - 1) = replicate (neuron_num s) 0"
  shows "\<exists>s'. step False I (i, tc) s = (None, s') \<and> quiet T s'"
proof -
  let ?s1 = "active_set (s\<lparr>t_now := tc\<rparr>)"
  have f1: "same_frame s ?s1" by (rule same_frame_active_set)
  note sf1 = static_fields[OF f1]
  have wf1: "wf_net ?s1" by (rule wf_net_frame[OF f1 wf])
  have mt1: "model_type ?s1 = ''LIF''" using mt sf1(12) by simp
  from wf_kernel[OF wf1] mt1 have k1: "model ?s1 = Some LIF_kernel"
    "synaptic_current ?s1 = Some LIF_kernel" by auto
  have dyn: "Vs ?s1 = Vs s" "Is ?s1 = Is s" "spikes_t ?s1 = spikes_t s"
    "spikes_seq ?s1 = spikes_seq s" "type_array ?s1 = type_array s"
    by (simp_all add: active_set_def)
  have q1: "Vs ?s1 = replicate (neuron_num ?s1) (Vr ?s1)" "Is ?s1 = replicate (neuron_num ?s1) 0"
    "spikes_t ?s1 = replicate (neuron_num ?s1) (- 1)"
    "keep_data ?s1 \<longrightarrow> spikes_seq ?s1 = zeros2 (neuron_num ?s1) (Suc T)"
    using q dyn sf1(2,7,11) by (simp_all add: quiet_def)
  have act: "active ?s1 = lif_active (s\<lparr>t_now := tc\<rparr>)" using mt by (simp add: active_set_def)
  have "list_all (\<lambda>k. k < neuron_num s) (lif_active (s\<lparr>t_now := tc\<rparr>))"
    by (rule lif_active_lt) (use q in \<open>simp add: quiet_def\<close>)
  then have a1: "list_all (\<lambda>k. k < neuron_num ?s1) (active ?s1)" using act sf1(7) by simp
  have ec: "external_current False (I ! (i - 1)) tc ?s1 = (Inr (I ! (i - 1)), ?s1)"
    by (simp add: external_current_def)
  have ig: "integrate ?s1 = (None, ?s1)"
    by (rule integrate_quiet[OF k1(1) mt1 a1 q1(1,2)])
  have le1: "Vr ?s1 \<le> Vth ?s1" using le sf1(1,2) by simp
  have lta: "length (type_array ?s1) = neuron_num ?s1"
    using wf1 by (simp add: wf_net_def)
  have lc: "length (connections ?s1) = neuron_num ?s1"
    using wf1 by (simp add: wf_net_def mat_shape_def)
  have row1: "I ! (i - 1) = replicate (neuron_num ?s1) 0" using row sf1(7) by simp
  from finish_step_quiet[OF k1(2) mt1 q1(1,3) le1 lta lc row1 q1(4), of i tc]
  obtain s' where fin: "finish_step i tc (I ! (i - 1)) ?s1 = (None, s')"
    and r: "Vs s' = replicate (neuron_num ?s1) (Vr ?s1)"
      "spikes_t s' = replicate (neuron_num ?s1) (- 1)"
      "spikes s' = replicate (neuron_num ?s1) False"
      "EPSC s' = replicate (neuron_num ?s1) 0"
      "Is s' = replicate (neuron_num ?s1) 0"
      "synaptic_current_LIF s' = replicate (neuron_num ?s1) 0"
      "keep_data ?s1 \<longrightarrow> spikes_seq s' = zeros2 (neuron_num ?s1) (Suc T)"
    by blast
  have st: "step False I (i, tc) s = (None, s')"
    using ec ig fin by (simp add: step_def Let_def)
  note sf' = static_fields[OF same_frame_step[OF st]]
  have "quiet T s'"
    using r sf'(2,7,11) sf1(2,7,11) by (simp add: quiet_def)
  then show ?thesis using st by blast
qed

lemma run_steps_quiet:
  assumes "wf_net s" and "model_type s = ''LIF''" and "quiet T s" and "Vr s \<le> Vth s"
    and "\<forall>it\<in>set its. I ! (fst it - 1) = replicate (neuron_num s) 0"
  shows "\<exists>s'. run_steps False I its s = (None, s') \<and> quiet T s'"
  using assms
proof (induction its arbitrary: s)
  case Nil
  then show ?case by simp
next
  case (Cons it its)
  obtain i tc where it: "it = (i, tc)" by (cases it)
  have row: "I ! (i - 1) = replicate (neuron_num s) 0" using Cons.prems(5) it by simp
  from step_quiet[OF Cons.prems(1,2,3,4) row, of tc] obtain s1 where
    st: "step False I (i, tc) s = (None, s1)" and q1: "quiet T s1" by blast
  have f: "same_frame s s1" by (rule same_frame_step[OF st])
  note sf = static_fields[OF f]
  have wf1: "wf_net s1" by (rule wf_net_frame[OF f Cons.prems(1)])
  have mt1: "model_type s1 = ''LIF''" using Cons.prems(2) sf(12) by simp
  have le1: "Vr s1 \<le> Vth s1" using Cons.prems(4) sf(1,2) by simp
  have rows1: "\<forall>it\<in>set its. I ! (fst it - 1) = replicate (neuron_num s1) 0"
    using Cons.prems(5) sf(7) by simp
  from Cons.IH[OF wf1 mt1 q1 le1 rows1] obtain s' where
    "run_steps False I its s1 = (None, s')" "quiet T s'" by blast
  then show ?case using st it by simp
qed

lemma after_steps_quiet:
  assumes wf: "wf_net s" and mt: "model_type s = ''LIF''" and le: "Vr s \<le> Vth s"
    and z: "list_all (\<lambda>row. row = replicate (neuron_num s) 0) I"
  shows "\<exists>sk. after_steps s I False k = (None, sk) \<and> quiet (length I) sk"
proof -
  let ?s0 = "start_run s I"
  have f: "same_frame s ?s0" by (rule same_frame_start_run)
  note sf = static_fields[OF f]
  have wf0: "wf_net ?s0" by (rule wf_net_frame[OF f wf])
  have mt0: "model_type ?s0 = ''LIF''" using mt sf(12) by simp
  have le0: "Vr ?s0 \<le> Vth ?s0" using le sf(1,2) by simp
  have rows: "\<forall>it\<in>set (take k (schedule s (length I))).
                I ! (fst it - 1) = replicate (neuron_num ?s0) 0"
  proof
    fix it
    assume "it \<in> set (take k (schedule s (length I)))"
    from schedule_fst[OF this] have "fst it - 1 < length I" by linarith
    then show "I ! (fst it - 1) = replicate (neuron_num ?s0) 0"
      using z sf(7) by (simp add: list_all_length)
  qed
  from run_steps_quiet[OF wf0 mt0 quiet_start_run[OF wf] le0 rows]
  show ?thesis by (simp add: after_steps_def)
qed

text \<open>
  Claim C4.  On a constructed LIF network with \<open>Vr < Vth\<close> (and a membrane time constant
  other than zero, since \<open>0 / 0\<close> is \<open>nan\<close> in numpy), also after earlier calls, a run
  with \<open>input_type = 0\<close> on an array of zeros does not raise, and after each of its
  iterations, \<open>k\<close> of them for every \<open>k\<close> up to the number of rows, every potential is
  \<open>Vr\<close>, no neuron spikes or has ever spiked, and every synaptic current and every
  entry of \<open>EPSC\<close> is \<open>0\<close>; the recorded spike series is zero throughout.
\<close>

theorem zero_input_stability:
  assumes "Network c inh rnd = Inr s0" and "c_model c = ''LIF''"
    and "c_Vr c < c_Vth c" and "c_tau c \<noteq> 0"
    and "list_all (\<lambda>row. row = replicate (neuron_num s0) 0) I"
    and "k \<le> length I"
  shows "\<exists>sk. after_steps (runs s0 calls) I False k = (None, sk)
           \<and> (k = length I \<longrightarrow> run_model (runs s0 calls) I False = (None, sk))
           \<and> Vs sk = replicate (neuron_num s0) (c_Vr c)
           \<and> spikes sk = replicate (neuron_num s0) False
           \<and> spikes_t sk = replicate (neuron_num s0) (- 1)
           \<and> synaptic_current_LIF sk = replicate (neuron_num s0) 0
           \<and> EPSC sk = replicate (neuron_num s0) 0
           \<and> (c_keep_data c \<longrightarrow> spikes_seq sk = zeros2 (neuron_num s0) (length I + 1))"
proof -
  let ?s = "runs s0 calls"
  note rw = runs_wf[OF assms(1), of calls]
  note fl = Network_fields[OF assms(1)]
  have mt: "model_type ?s = ''LIF''" using rw(2) assms(2) by simp
  have le: "Vr ?s \<le> Vth ?s" using rw(7,9) fl(7) assms(3) by simp
  have z: "list_all (\<lambda>row. row = replicate (neuron_num ?s) 0) I" using assms(5) rw(3) by simp
  from after_steps_quiet[OF rw(1) mt le z, of k] obtain sk where
    a: "after_steps ?s I False k = (None, sk)" and q: "quiet (length I) sk" by blast
  note sfk = static_fields[OF after_steps_inv(2)[OF a rw(1)]]
  have n: "neuron_num sk = neuron_num s0" "Vr sk = c_Vr c" "keep_data sk = c_keep_data c"
    using sfk(7,2,11) rw(3,9,8) fl(7,10) by simp_all
  have b: "k = length I \<longrightarrow> run_model ?s I False = (None, sk)"
    using a after_steps_all[of ?s I False] by auto
  show ?thesis using a b q n by (auto simp: quiet_def)
qed

text \<open>Three steps of zero input on the small network as an instance of C4.\<close>

theorem zero_input_stability_witness:
  "Network small_config [0] zero_draws = Inr small_net \<and> c_model small_config = ''LIF''
   \<and> c_Vr small_config < c_Vth small_config \<and> c_tau small_config \<noteq> 0
   \<and> list_all (\<lambda>row. row = replicate (neuron_num small_net) 0) [[0, 0], [0, 0], [0, 0]]
   \<and> (3::nat) \<le> length [[0, 0], [0, 0], [0, 0 :: real]]
   \<and> (\<exists>sk. run_model (runs small_net []) [[0, 0], [0, 0], [0, 0]] False = (None, sk)
          \<and> Vs sk = replicate (neuron_num small_net) (c_Vr small_config)
          \<and> spikes sk = replicate (neuron_num small_net) False
          \<and> EPSC sk = replicate (neuron_num small_net) 0
          \<and> spikes_seq sk
              = zeros2 (neuron_num small_net) (length [[0, 0], [0, 0], [0, 0 :: real]] + 1))"
proof -
  have m: "c_model small_config = ''LIF''" "c_Vr small_config < c_Vth small_config"
    "c_tau small_config \<noteq> 0" "c_keep_data small_config"
    by (simp_all add: small_config_def default_config_def)
  have z: "list_all (\<lambda>row. row = replicate (neuron_num small_net) 0) [[0, 0], [0, 0], [0, 0]]"
    by (simp add: small_net_def eval_nat_numeral)
  have k: "(3::nat) \<le> length [[0, 0], [0, 0], [0, 0 :: real]]" by simp
  from zero_input_stability[OF Network_small m(1,2,3) z k, of "[]"] m(4)
  show ?thesis using Network_small m z by auto
qed


section \<open>The refractory period\<close>

lemma fold_update_notin:
  "j \<notin> set idx \<Longrightarrow> fold (\<lambda>k acc. acc[k := v]) idx xs ! j = xs ! j"
  by (induction idx arbitrary: xs) auto

lemma put_idx_notin:
  assumes "put_idx xs idx vals = Inr ys" and "j \<notin> set idx"
  shows "ys ! j = xs ! j"
proof -
  from assms(1) have "ys = put xs idx vals \<or> ys = fold (\<lambda>k acc. acc[k := hd vals]) idx xs"
    by (auto simp: put_idx_def put_def split: if_splits)
  then show ?thesis using assms(2) by (auto simp: put_notin fold_update_notin)
qed

lemma call_model_Vs: "call_model s = (r, s1) \<Longrightarrow> Vs s1 = Vs s"
  by (auto simp: call_model_def SFA_def K_frac_def Let_def
      split: option.splits kernel.splits sum.splits)

lemma integrate_notin:
  assumes "integrate s = (None, s3)" and "j \<notin> set (active s)"
  shows "Vs s3 ! j = Vs s ! j"
proof -
  from assms(1) obtain d s1 v1 vs' where
    cm: "call_model s = (Inr d, s1)" and pi: "put_idx (Vs s1) (active s) v1 = Inr vs'"
    and s3: "s3 = s1\<lparr>Vs := vs'\<rparr>"
    by (auto simp: integrate_def active_neurons_def split: option.splits sum.splits prod.splits if_splits)
  from put_idx_notin[OF pi assms(2)] call_model_Vs[OF cm] show ?thesis by (simp add: s3)
qed

lemma lif_active_iff:
  assumes "length (spikes_t s) = n" and "length (type_array s) = n" and "j < n"
  shows "j \<in> set (lif_active s) \<longleftrightarrow>
           (t_now s - spikes_t s ! j > pick (ref s) (type_array s ! j) \<or> spikes_t s ! j = - 1)"
  using assms by (simp add: lif_active_def set_nonzero)

text \<open>
  Claim C2.  On a constructed LIF network, in any run, let \<open>sk\<close> be the state in which
  iteration \<open>k + 1\<close> starts, \<open>t = (k + 1) * dt\<close> its time and \<open>s\<close> the last-spike time
  of neuron \<open>j\<close>.  The iteration is \<open>step\<close> at \<open>(k + 1, t)\<close>, and its active set holds
  \<open>j\<close> exactly when \<open>t - s > ref[type(j)]\<close> or \<open>s\<close> is the sentinel \<open>-1\<close>.  So a neuron
  that has spiked is excluded while \<open>0 < t - s \<le> ref[type(j)]\<close>, it is included as soon as
  \<open>t - s > ref[type(j)]\<close>, and a neuron that never spiked is always included; the
  integration of line 273 leaves the potential of an excluded neuron as it was.
\<close>

theorem lif_refractory_exclusion:
  assumes "Network c inh rnd = Inr s0" and "c_model c = ''LIF''"
    and "k < length I" and "after_steps (runs s0 calls) I ty k = (None, sk)"
    and "j < neuron_num s0"
  shows "after_steps (runs s0 calls) I ty (Suc k)
           = step ty I (Suc k, real (Suc k) * dt s0) sk
       \<and> (j \<in> set (active (active_set (sk\<lparr>t_now := real (Suc k) * dt s0\<rparr>))) \<longleftrightarrow>
            real (Suc k) * dt s0 - spikes_t sk ! j > pick (ref s0) (type_array sk ! j)
            \<or> spikes_t sk ! j = - 1)
       \<and> (spikes_t sk ! j \<noteq> - 1 \<and> 0 < real (Suc k) * dt s0 - spikes_t sk ! j
            \<and> real (Suc k) * dt s0 - spikes_t sk ! j \<le> pick (ref s0) (type_array sk ! j)
          \<longrightarrow> j \<notin> set (active (active_set (sk\<lparr>t_now := real (Suc k) * dt s0\<rparr>))))
       \<and> (real (Suc k) * dt s0 - spikes_t sk ! j > pick (ref s0) (type_array sk ! j)
          \<longrightarrow> j \<in> set (active (active_set (sk\<lparr>t_now := real (Suc k) * dt s0\<rparr>))))
       \<and> (spikes_t sk ! j = - 1
          \<longrightarrow> j \<in> set (active (active_set (sk\<lparr>t_now := real (Suc k) * dt s0\<rparr>))))
       \<and> (\<forall>I_cur s2 s3.
            external_current ty (I ! k) (real (Suc k) * dt s0)
              (active_set (sk\<lparr>t_now := real (Suc k) * dt s0\<rparr>)) = (Inr I_cur, s2)
            \<and> integrate s2 = (None, s3)
            \<and> j \<notin> set (active (active_set (sk\<lparr>t_now := real (Suc k) * dt s0\<rparr>)))
            \<longrightarrow> Vs s3 ! j = Vs sk ! j)"
proof -
  let ?s = "runs s0 calls"
  let ?t = "real (Suc k) * dt s0"
  let ?s1 = "active_set (sk\<lparr>t_now := ?t\<rparr>)"
  note rw = runs_wf[OF assms(1), of calls]
  note inv = after_steps_inv[OF assms(4) rw(1)]
  note sfk = static_fields[OF inv(2)]
  note sf0 = static_fields[OF same_frame_runs[of s0 calls]]
  have mt: "model_type sk = ''LIF''" using sfk(12) rw(2) assms(2) by simp
  have n: "neuron_num sk = neuron_num s0" using sfk(7) rw(3) by simp
  have rf: "ref sk = ref s0" using sfk(18) sf0(18) by simp
  have l: "length (spikes_t sk) = neuron_num s0" "length (type_array sk) = neuron_num s0"
    using run_inv_lengths(2)[OF inv(1)] inv(3) n by (simp_all add: wf_net_def)
  have a: "after_steps ?s I ty (Suc k) = step ty I (Suc k, ?t) sk"
    using after_steps_Suc[OF assms(3,4)] rw(5) by simp
  have act: "active ?s1 = lif_active (sk\<lparr>t_now := ?t\<rparr>)" using mt by (simp add: active_set_def)
  have iff: "j \<in> set (active ?s1) \<longleftrightarrow>
            ?t - spikes_t sk ! j > pick (ref s0) (type_array sk ! j) \<or> spikes_t sk ! j = - 1"
    unfolding act
    using lif_active_iff[of "sk\<lparr>t_now := ?t\<rparr>" "neuron_num s0" j] l assms(5) rf by simp
  have d: "Vs s3 ! j = Vs sk ! j"
    if "external_current ty (I ! k) ?t ?s1 = (Inr I_cur, s2)" "integrate s2 = (None, s3)"
      "j \<notin> set (active ?s1)" for I_cur s2 s3
  proof -
    from external_current_dyn[OF that(1)] obtain it where s2: "s2 = ?s1\<lparr>input_t := it\<rparr>" by blast
    have "j \<notin> set (active s2)" using that(3) by (simp add: s2)
    from integrate_notin[OF that(2) this] show ?thesis by (simp add: s2 active_set_def)
  qed
  show ?thesis using a iff d by auto
qed

section \<open>Spike and reset\<close>

lemma fire_fields:
  assumes "j < length (Vs s)" and "length (spikes_t s) = length (Vs s)"
  shows "spikes (fire tc s) ! j = (Vs s ! j > Vth s)"
    and "Vs s ! j > Vth s \<Longrightarrow> spikes_t (fire tc s) ! j = tc"
    and "Vs s ! j > Vth s \<Longrightarrow> Vs (fire tc s) ! j = 0"
    and "\<not> Vs s ! j > Vth s \<Longrightarrow> spikes_t (fire tc s) ! j = spikes_t s ! j"
    and "\<not> Vs s ! j > Vth s \<Longrightarrow> Vs (fire tc s) ! j = Vs s ! j"
    and "length (Vs (fire tc s)) = length (Vs s)" and "length (spikes (fire tc s)) = length (Vs s)"
  using assms by (simp_all add: fire_def Let_def)

lemma finish_step_fields:
  assumes fin: "finish_step i tc I_cur s3 = (None, s')" and wf: "wf_net s3" and ri: "run_inv T s3"
    and j: "j < neuron_num s3" and i: "i \<le> T"
  shows "spikes s' ! j = (Vs s3 ! j > Vth s3)"
    and "Vs s3 ! j > Vth s3 \<Longrightarrow> spikes_t s' ! j = tc"
    and "Vs s3 ! j > Vth s3 \<Longrightarrow> Vs s' ! j = Vreset s3"
    and "Vs s3 ! j > Vth s3 \<Longrightarrow> keep_data s3 \<Longrightarrow> Vseq s' ! j ! i = 0"
    and "Vs s3 ! j > Vth s3 \<Longrightarrow> keep_data s3 \<Longrightarrow> spikes_seq s' ! j ! i = 1"
    and "\<not> Vs s3 ! j > Vth s3 \<Longrightarrow> spikes_t s' ! j = spikes_t s3 ! j"
    and "\<not> Vs s3 ! j > Vth s3 \<Longrightarrow> Vs s' ! j = Vs s3 ! j"
    and "n_open s' = n_open s3"
proof -
  note ln = run_inv_lengths[OF ri]
  from finish_step_None_E[OF fin] obtain ep v where
    s': "s' = (settle (record_step i ((fire tc s3)\<lparr>EPSC := ep\<rparr>)))\<lparr>Is := v\<rparr>" by blast
  let ?f = "fire tc s3"
  let ?s4 = "?f\<lparr>EPSC := ep\<rparr>"
  have jl: "j < length (Vs s3)" "length (spikes_t s3) = length (Vs s3)" using ln j by simp_all
  note ff = fire_fields[OF jl, of tc]
  have st: "spikes_t s' = spikes_t ?f" "spikes s' = spikes ?f" "Vreset ?f = Vreset s3"
    "keep_data ?f = keep_data s3" "n_open s' = n_open s3"
    by (simp_all add: s' settle_def record_step_fields) (simp_all add: fire_def Let_def)
  have vs': "Vs s' = map2 (\<lambda>b v. if b then Vreset s3 else v) (spikes ?f) (Vs ?f)"
    using st(3) by (simp add: s' settle_def record_step_fields)
  have jl2: "j < length (spikes ?f)" "j < length (Vs ?f)" using ff(6,7) jl by simp_all
  show "spikes s' ! j = (Vs s3 ! j > Vth s3)" using st ff(1) by simp
  show "Vs s3 ! j > Vth s3 \<Longrightarrow> spikes_t s' ! j = tc" using st ff(2) by simp
  show "\<not> Vs s3 ! j > Vth s3 \<Longrightarrow> spikes_t s' ! j = spikes_t s3 ! j" using st ff(4) by simp
  show "Vs s3 ! j > Vth s3 \<Longrightarrow> Vs s' ! j = Vreset s3"
    using vs' jl2 ff(1) by simp
  show "\<not> Vs s3 ! j > Vth s3 \<Longrightarrow> Vs s' ! j = Vs s3 ! j"
    using vs' jl2 ff(1,5) by simp
  show "n_open s' = n_open s3" by (rule st(5))
  have sh: "keep_data s3 \<Longrightarrow> mat_shape (neuron_num s3) (T + 1) (Vseq ?s4)"
    "keep_data s3 \<Longrightarrow> mat_shape (neuron_num s3) (T + 1) (spikes_seq ?s4)"
    using ri by (simp_all add: run_inv_def fire_def Let_def)
  have lv: "length (Vs ?s4) = neuron_num s3" "length (map of_bool (spikes ?s4) :: real list) = neuron_num s3"
    using ff(6,7) ln by simp_all
  have i': "i < T + 1" using i by simp
  have vq: "keep_data s3 \<Longrightarrow> Vseq s' = set_col (Vseq ?s4) i (Vs ?s4)"
    "keep_data s3 \<Longrightarrow> spikes_seq s' = set_col (spikes_seq ?s4) i (map of_bool (spikes ?s4))"
    using st(4) by (simp_all add: s' settle_def record_step_def)
  show "Vs s3 ! j > Vth s3 \<Longrightarrow> keep_data s3 \<Longrightarrow> Vseq s' ! j ! i = 0"
    using vq(1) set_col_nth[OF sh(1) lv(1) i' j] ff(3) by simp
  show "Vs s3 ! j > Vth s3 \<Longrightarrow> keep_data s3 \<Longrightarrow> spikes_seq s' ! j ! i = 1"
    using vq(2) set_col_nth[OF sh(2) lv(2) i' j] ff(1) jl2 by simp
qed

text \<open>Column \<open>i\<close> of the recorded series after an iteration, and the synaptic current
  that the iteration leaves, in terms of the state \<open>fire tc s3\<close> after the spike detection.\<close>

lemma finish_step_record:
  assumes fin: "finish_step i tc I_cur s3 = (None, s')" and wf: "wf_net s3" and ri: "run_inv T s3"
    and i: "i \<le> T" and kd: "keep_data s3"
  shows "col (Vseq s') i = Vs (fire tc s3)"
    and "col (spikes_seq s') i = map of_bool (spikes s')"
    and "col (EPSC_seq s') i = EPSC s'"
proof -
  note ln = run_inv_lengths[OF ri]
  from finish_step_None_E[OF fin] wf ln(1) obtain ep v where
    s': "s' = (settle (record_step i ((fire tc s3)\<lparr>EPSC := ep\<rparr>)))\<lparr>Is := v\<rparr>"
    and le: "length ep = neuron_num s3" by blast
  let ?f = "fire tc s3"
  let ?s4 = "?f\<lparr>EPSC := ep\<rparr>"
  have kf: "keep_data ?s4" using kd by (simp add: fire_def Let_def)
  have sh: "mat_shape (neuron_num s3) (T + 1) (Vseq ?s4)"
    "mat_shape (neuron_num s3) (T + 1) (spikes_seq ?s4)"
    "mat_shape (neuron_num s3) (T + 1) (EPSC_seq ?s4)"
    using ri kd by (simp_all add: run_inv_def fire_def Let_def)
  have lv: "length (Vs ?f) = neuron_num s3"
    "length (map of_bool (spikes ?f) :: real list) = neuron_num s3"
    using ln by (simp_all add: fire_def Let_def)
  have i': "i < T + 1" using i by simp
  have vq: "Vseq s' = set_col (Vseq ?s4) i (Vs ?f)"
    "spikes_seq s' = set_col (spikes_seq ?s4) i (map of_bool (spikes ?f))"
    "EPSC_seq s' = set_col (EPSC_seq ?s4) i ep"
    "spikes s' = spikes ?f" "EPSC s' = ep"
    using kf by (simp_all add: s' settle_def record_step_def)
  show "col (Vseq s') i = Vs (fire tc s3)"
    unfolding vq(1) by (rule col_set_col[OF sh(1) lv(1) i'])
  show "col (spikes_seq s') i = map of_bool (spikes s')"
    unfolding vq(2,4) by (rule col_set_col[OF sh(2) lv(2) i'])
  show "col (EPSC_seq s') i = EPSC s'"
    unfolding vq(3,5) by (rule col_set_col[OF sh(3) le i'])
qed

lemma finish_step_EPSC:
  assumes fin: "finish_step i tc I_cur s3 = (None, s')" and wf: "wf_net s3"
  shows "propagate (fire tc s3) = (None, (fire tc s3)\<lparr>EPSC := EPSC s'\<rparr>)"
    and "model_type s3 = ''SFA'' \<Longrightarrow>
           EPSC s' = map2 (-) (dot (connections s3) (synaptic_current_SFA s'))
                      (map2 (*) (dot (as_float (connections_bool s3)) (synaptic_current_SFA s'))
                         (Vs (fire tc s3)))"
    and "model_type s3 = ''LIF'' \<Longrightarrow> EPSC s' = dot (connections s3) (synaptic_current_LIF s')"
proof -
  from finish_step_None_E[OF fin] obtain ep v where
    s': "s' = (settle (record_step i ((fire tc s3)\<lparr>EPSC := ep\<rparr>)))\<lparr>Is := v\<rparr>"
    and pr: "propagate (fire tc s3) = (None, (fire tc s3)\<lparr>EPSC := ep\<rparr>)" by blast
  let ?f = "fire tc s3"
  have e: "EPSC s' = ep" by (simp add: s' settle_def record_step_fields)
  show "propagate ?f = (None, ?f\<lparr>EPSC := EPSC s'\<rparr>)" using pr e by simp
  have fd: "t_now s' = t_now ?f" "spikes_t s' = spikes_t ?f" "type_array s' = type_array ?f"
    "tau_psc s' = tau_psc ?f" "J_syn s' = J_syn ?f" "tauDec s' = tauDec ?f"
    "tauRise s' = tauRise ?f"
    by (simp_all add: s' settle_def record_step_def)
  have sy: "synaptic_current_SFA s' = synaptic_current_SFA ?f"
    "synaptic_current_LIF s' = synaptic_current_LIF ?f"
    unfolding synaptic_current_SFA_def synaptic_current_LIF_def fd by (rule refl)+
  have fr: "model_type ?f = model_type s3" "synaptic_current ?f = synaptic_current s3"
    "connections ?f = connections s3" "connections_bool ?f = connections_bool s3"
    by (simp_all add: fire_def Let_def)
  have ep: "ep = EPSC (snd (propagate ?f))" using pr by simp
  show "EPSC s' = map2 (-) (dot (connections s3) (synaptic_current_SFA s'))
                      (map2 (*) (dot (as_float (connections_bool s3)) (synaptic_current_SFA s'))
                         (Vs (fire tc s3)))" if m: "model_type s3 = ''SFA''"
  proof -
    have k: "synaptic_current ?f = Some SFA_kernel" using wf m fr by (simp add: wf_net_def)
    show ?thesis unfolding e ep sy
      using k m fr by (simp add: propagate_def call_synaptic_current_def)
  qed
  show "EPSC s' = dot (connections s3) (synaptic_current_LIF s')" if m: "model_type s3 = ''LIF''"
  proof -
    have k: "synaptic_current ?f = Some LIF_kernel" using wf m fr by (simp add: wf_net_def)
    show ?thesis unfolding e ep sy
      using k m fr by (simp add: propagate_def call_synaptic_current_def)
  qed
qed

text \<open>
  Claim C1.  On a constructed network, in any run, let iteration \<open>k + 1\<close>, at the time
  \<open>t = (k + 1) * dt\<close>, run to its end from the state \<open>sk\<close> to the state \<open>sk'\<close>, in which
  the next iteration starts.  The iteration passes through the state \<open>s3\<close> after the
  integration of line 273; neuron \<open>j\<close> spikes exactly when its potential in \<open>s3\<close> exceeds
  \<open>Vth\<close>.  The synaptic current \<open>EPSC\<close> that the iteration leaves in \<open>sk'\<close> is the one
  computed from the state \<open>fire t s3\<close>, in which the potential of a spiking neuron is
  \<open>0\<close> and that of any other neuron its integrated potential: in the model \<open>SFA\<close> the
  entry of neuron \<open>j\<close> is the weighted sum of the synaptic kernels minus the sum over the
  connected neurons times the potential of \<open>j\<close> in \<open>fire t s3\<close>, so for a spiking
  neuron the second term vanishes.  With \<open>keep_data\<close>, column \<open>k + 1\<close> of the recorded
  potentials is the vector of potentials of \<open>fire t s3\<close>, that of the recorded spikes the
  spike vector, that of the recorded currents \<open>EPSC\<close>: the entry of a spiking neuron is
  the \<open>0\<close>, that of any other neuron its integrated potential.  For a spiking neuron the
  last-spike time becomes \<open>t\<close>, and in \<open>sk'\<close> its potential is \<open>Vth - Vreset\<close> for the
  arguments \<open>Vth\<close> and \<open>Vreset\<close> of the constructor.
\<close>

theorem reset_after_spike:
  assumes "Network c inh rnd = Inr s0" and "k < length I"
    and "after_steps (runs s0 calls) I ty k = (None, sk)"
    and "after_steps (runs s0 calls) I ty (Suc k) = (None, sk')"
    and "j < neuron_num s0"
  shows "\<exists>I_cur s2 s3.
           external_current ty (I ! k) (real (Suc k) * c_dt c)
             (active_set (sk\<lparr>t_now := real (Suc k) * c_dt c\<rparr>)) = (Inr I_cur, s2)
         \<and> integrate s2 = (None, s3)
         \<and> propagate (fire (real (Suc k) * c_dt c) s3)
             = (None, (fire (real (Suc k) * c_dt c) s3)\<lparr>EPSC := EPSC sk'\<rparr>)
         \<and> finish_step (Suc k) (real (Suc k) * c_dt c) I_cur s3 = (None, sk')
         \<and> spikes sk' ! j = (Vs s3 ! j > c_Vth c)
         \<and> (c_keep_data c \<longrightarrow>
              col (Vseq sk') (Suc k) = Vs (fire (real (Suc k) * c_dt c) s3)
            \<and> col (spikes_seq sk') (Suc k) = map of_bool (spikes sk')
            \<and> col (EPSC_seq sk') (Suc k) = EPSC sk')
         \<and> (c_model c = ''SFA'' \<longrightarrow>
              EPSC sk' ! j =
                dot (connections s0) (synaptic_current_SFA sk') ! j
                - dot (as_float (connections_bool s0)) (synaptic_current_SFA sk') ! j
                  * Vs (fire (real (Suc k) * c_dt c) s3) ! j)
         \<and> (c_model c = ''LIF'' \<longrightarrow>
              EPSC sk' ! j = dot (connections s0) (synaptic_current_LIF sk') ! j)
         \<and> (\<not> Vs s3 ! j > c_Vth c \<longrightarrow>
              Vs (fire (real (Suc k) * c_dt c) s3) ! j = Vs s3 ! j
            \<and> (c_keep_data c \<longrightarrow> Vseq sk' ! j ! (Suc k) = Vs s3 ! j \<and> spikes_seq sk' ! j ! (Suc k) = 0)
            \<and> Vs sk' ! j = Vs s3 ! j)
         \<and> (Vs s3 ! j > c_Vth c \<longrightarrow>
              spikes_t sk' ! j = real (Suc k) * c_dt c
            \<and> Vs (fire (real (Suc k) * c_dt c) s3) ! j = 0
            \<and> (c_keep_data c \<longrightarrow> Vseq sk' ! j ! (Suc k) = 0 \<and> spikes_seq sk' ! j ! (Suc k) = 1)
            \<and> (c_model c = ''SFA'' \<longrightarrow>
                 EPSC sk' ! j = dot (connections s0) (synaptic_current_SFA sk') ! j)
            \<and> Vs sk' ! j = c_Vth c - c_Vreset c)"
proof -
  let ?s = "runs s0 calls"
  let ?t = "real (Suc k) * c_dt c"
  let ?s1 = "active_set (sk\<lparr>t_now := ?t\<rparr>)"
  note rw = runs_wf[OF assms(1), of calls]
  note fl = Network_fields[OF assms(1)]
  note inv = after_steps_inv[OF assms(3) rw(1)]
  note sf0 = static_fields[OF same_frame_runs[of s0 calls]]
  have dt: "dt ?s = c_dt c" using rw(5) fl(8) by simp
  have st: "step ty I (Suc k, ?t) sk = (None, sk')"
    using after_steps_Suc[OF assms(2,3)] assms(4) dt by simp
  from step_None_D[OF st] obtain I_cur s2 s3 where
    ec: "external_current ty (I ! k) ?t ?s1 = (Inr I_cur, s2)"
    and ig: "integrate s2 = (None, s3)"
    and fin: "finish_step (Suc k) ?t I_cur s3 = (None, sk')" by auto
  from external_current_dyn[OF ec] obtain it where s2: "s2 = ?s1\<lparr>input_t := it\<rparr>" by blast
  have r2: "run_inv (length I) s2" unfolding s2 by (rule run_inv_begin[OF inv(1)])
  from integrate_None_inv[OF ig r2] have r3: "run_inv (length I) s3" by simp
  have f3: "same_frame ?s s3"
    using same_frame_trans[OF inv(2) same_frame_trans[OF same_frame_trans[OF same_frame_active_set
          same_frame_external_current[OF ec]] same_frame_integrate[OF ig]]] .
  note sf3 = static_fields[OF f3]
  have wf3: "wf_net s3" by (rule wf_net_frame[OF f3 rw(1)])
  have c3: "neuron_num s3 = neuron_num s0" "Vth s3 = c_Vth c" "Vreset s3 = c_Vth c - c_Vreset c"
    "keep_data s3 = c_keep_data c" "model_type s3 = c_model c"
    "connections s3 = connections s0" "connections_bool s3 = connections_bool s0"
    using sf3(7,1,3,11,12,9,20) sf0(9,20) rw(3,7,6,8,2) fl(10) by simp_all
  have j3: "j < neuron_num s3" using assms(5) c3(1) by simp
  have k': "Suc k \<le> length I" using assms(2) by simp
  note ff = finish_step_fields[OF fin wf3 r3 j3 k']
  note fe = finish_step_EPSC[OF fin wf3]
  let ?f = "fire ?t s3"
  have jl: "j < length (Vs s3)" "length (spikes_t s3) = length (Vs s3)"
    using run_inv_lengths(1,2)[OF r3] j3 by simp_all
  note fr = fire_fields[OF jl, of ?t]
  have z: "Vs s3 ! j > c_Vth c \<Longrightarrow> Vs ?f ! j = 0"
    using fr(3) c3(2) by simp
  have nz: "\<not> Vs s3 ! j > c_Vth c \<Longrightarrow> Vs ?f ! j = Vs s3 ! j"
    using fr(5) c3(2) by simp
  have rec: "c_keep_data c \<Longrightarrow> col (Vseq sk') (Suc k) = Vs ?f"
    "c_keep_data c \<Longrightarrow> col (spikes_seq sk') (Suc k) = map of_bool (spikes sk')"
    "c_keep_data c \<Longrightarrow> col (EPSC_seq sk') (Suc k) = EPSC sk'"
    using finish_step_record[OF fin wf3 r3 k'] c3(4) by simp_all
  have nn: "length (connections s0) = neuron_num s0" "length (connections_bool s0) = neuron_num s0"
    using rw(1) sf0(9,20) rw(3) by (simp_all add: wf_net_def mat_shape_def mask_of_def)
  have lf: "length (Vs ?f) = neuron_num s0" using fr(6) run_inv_lengths(1)[OF r3] c3(1) by simp
  have sfa: "EPSC sk' ! j =
                dot (connections s0) (synaptic_current_SFA sk') ! j
                - dot (as_float (connections_bool s0)) (synaptic_current_SFA sk') ! j * Vs ?f ! j"
    if m: "c_model c = ''SFA''"
  proof -
    have "EPSC sk' = map2 (-) (dot (connections s0) (synaptic_current_SFA sk'))
                      (map2 (*) (dot (as_float (connections_bool s0)) (synaptic_current_SFA sk'))
                         (Vs ?f))"
      using fe(2) m c3(5,6,7) by simp
    then show ?thesis using assms(5) nn lf by (simp add: length_dot as_float_def)
  qed
  have lif: "EPSC sk' ! j = dot (connections s0) (synaptic_current_LIF sk') ! j"
    if m: "c_model c = ''LIF''"
    using fe(3) m c3(5,6) by simp
  have sfa0: "EPSC sk' ! j = dot (connections s0) (synaptic_current_SFA sk') ! j"
    if m: "c_model c = ''SFA''" and sp: "Vs s3 ! j > c_Vth c"
    using sfa[OF m] z[OF sp] by simp
  have jw: "j < length (Vseq sk')" if "c_keep_data c"
  proof -
    have "length (col (Vseq sk') (Suc k)) = length (Vs ?f)" using rec(1)[OF that] by simp
    then show ?thesis using lf assms(5) by (simp add: col_def)
  qed
  have vq: "Vseq sk' ! j ! (Suc k) = Vs ?f ! j" if kd: "c_keep_data c"
  proof -
    have "col (Vseq sk') (Suc k) ! j = Vs ?f ! j" using rec(1)[OF kd] by simp
    then show ?thesis using jw[OF kd] by (simp add: col_def)
  qed
  have sq: "spikes_seq sk' ! j ! (Suc k) = of_bool (spikes sk' ! j)" if kd: "c_keep_data c"
  proof -
    have l: "length (col (spikes_seq sk') (Suc k)) = length (spikes sk')"
      using rec(2)[OF kd] by simp
    have ls: "length (spikes sk') = neuron_num s0"
      using run_inv_lengths(3)[OF after_steps_inv(1)[OF assms(4) rw(1)]]
        static_fields(7)[OF after_steps_inv(2)[OF assms(4) rw(1)]] rw(3) by simp
    have "col (spikes_seq sk') (Suc k) ! j = map of_bool (spikes sk') ! j"
      using rec(2)[OF kd] by simp
    then show ?thesis using l ls assms(5) by (simp add: col_def)
  qed
  have a: "spikes sk' ! j = (Vs s3 ! j > c_Vth c)" using ff(1) c3(2) by simp
  have quiet_j: "\<not> Vs s3 ! j > c_Vth c \<longrightarrow>
              Vs ?f ! j = Vs s3 ! j
            \<and> (c_keep_data c \<longrightarrow> Vseq sk' ! j ! (Suc k) = Vs s3 ! j \<and> spikes_seq sk' ! j ! (Suc k) = 0)
            \<and> Vs sk' ! j = Vs s3 ! j"
    using nz vq sq a ff(7) c3(2) by simp
  have spike_j: "Vs s3 ! j > c_Vth c \<longrightarrow>
              spikes_t sk' ! j = ?t \<and> Vs ?f ! j = 0
            \<and> (c_keep_data c \<longrightarrow> Vseq sk' ! j ! (Suc k) = 0 \<and> spikes_seq sk' ! j ! (Suc k) = 1)
            \<and> (c_model c = ''SFA'' \<longrightarrow>
                 EPSC sk' ! j = dot (connections s0) (synaptic_current_SFA sk') ! j)
            \<and> Vs sk' ! j = c_Vth c - c_Vreset c"
    using ff(2,3) z vq sq a sfa0 c3(2,3) by simp
  have rc: "c_keep_data c \<longrightarrow>
              col (Vseq sk') (Suc k) = Vs ?f
            \<and> col (spikes_seq sk') (Suc k) = map of_bool (spikes sk')
            \<and> col (EPSC_seq sk') (Suc k) = EPSC sk'"
    using rec by simp
  show ?thesis
    by (intro exI[of _ I_cur] exI[of _ s2] exI[of _ s3] conjI)
       (use ec ig fe(1) fin a rc sfa lif quiet_j spike_j in blast)+
qed


section \<open>A run of the small network with a spike\<close>

text \<open>The definitions that the simplifier unfolds to run the small network.\<close>

lemmas eval_defs = step_def finish_step_def start_run_def reset_history_def small_net_def Let_def
    active_set_def lif_active_def nonzero_def external_current_def integrate_def active_neurons_def
    take_idx_def call_model_def LIF_def bcast_def put_idx_def fire_def propagate_def
    call_synaptic_current_def synaptic_current_LIF_def dot_def record_step_def set_col_def zeros2_def
    settle_def pick_def heaviside1_def eval_nat_numeral after_steps_def schedule_def linspace_def
    spike_input_def

text \<open>The small network with the model \<open>SFA\<close>.\<close>

lemmas net_defs = Network_def blank_net_def sfa_config_def small_config_def default_config_def
    Let_def lattice_size_def generate_connections_def zeros2_def input_edge_def neuron_edge_def
    get_pos_def unravel_def edge_drawn_def connect_pr_def lookup_def excitatory_def
    V_syn_default_def connect_const_default_def set_entry_def mid_of_def cluster_of_def
    zero_less_mult_iff reset_history_def mask_of_def eval_nat_numeral small_net_def sfa_net_def
    zero_draws_def

lemma Network_sfa: "Network sfa_config [0] zero_draws = Inr sfa_net"
  by (simp add: net_defs)

lemmas sfa_defs = eval_defs sfa_net_def SFA_def K_frac_def K_gate_def synaptic_current_SFA_def
    as_float_def relay_input_def

text \<open>The run of the adapting network on \<open>relay_input\<close>: neuron 1 spikes in the second
  step, neuron 0 in the third.\<close>

lemma relay_run_2: "fst (after_steps sfa_net relay_input False 2) = None"
  by (simp add: sfa_defs)

lemma relay_run_3:
  "fst (after_steps sfa_net relay_input False 3) = None"
  "spikes (snd (after_steps sfa_net relay_input False 3)) = [True, False]"
  "spikes_t (snd (after_steps sfa_net relay_input False 3)) = [3 / 100, 2 / 100]"
  "Vs (snd (after_steps sfa_net relay_input False 3)) = [10, 74974647 / 7500000]"
  "t_now (snd (after_steps sfa_net relay_input False 3)) = 3 / 100"
  "J_syn (snd (after_steps sfa_net relay_input False 3)) = 615 / 10000"
  "tauDec (snd (after_steps sfa_net relay_input False 3)) = 65 / 10"
  "tauRise (snd (after_steps sfa_net relay_input False 3)) = 1"
  by (simp_all add: sfa_defs)

text \<open>The third iteration of that run as an instance of C1.  Neuron 0 spikes: the
  recorded potential is \<open>0\<close>, the recorded spike \<open>1\<close>, the potential in the next state
  \<open>Vth - Vreset = 10\<close>, and its synaptic current is \<open>- 20\<close> times the kernel of neuron 1,
  which is not zero, with no contribution of the driving term.  Neuron 1 does not spike:
  its recorded potential is its integrated potential, which is not zero.\<close>

theorem reset_after_spike_witness:
  "Network sfa_config [0] zero_draws = Inr sfa_net \<and> (2::nat) < length relay_input
   \<and> after_steps (runs sfa_net []) relay_input False 2
       = (None, snd (after_steps sfa_net relay_input False 2))
   \<and> after_steps (runs sfa_net []) relay_input False (Suc 2)
       = (None, snd (after_steps sfa_net relay_input False 3))
   \<and> (0::nat) < neuron_num sfa_net \<and> (1::nat) < neuron_num sfa_net
   \<and> spikes (snd (after_steps sfa_net relay_input False 3)) = [True, False]
   \<and> spikes_t (snd (after_steps sfa_net relay_input False 3)) ! 0
       = real (Suc 2) * c_dt sfa_config
   \<and> Vseq (snd (after_steps sfa_net relay_input False 3)) ! 0 ! (Suc 2) = 0
   \<and> spikes_seq (snd (after_steps sfa_net relay_input False 3)) ! 0 ! (Suc 2) = 1
   \<and> Vs (snd (after_steps sfa_net relay_input False 3)) ! 0 = 10
   \<and> Vseq (snd (after_steps sfa_net relay_input False 3)) ! 1 ! (Suc 2) = 74974647 / 7500000
   \<and> spikes_seq (snd (after_steps sfa_net relay_input False 3)) ! 1 ! (Suc 2) = 0
   \<and> EPSC (snd (after_steps sfa_net relay_input False 3)) ! 0
       = - 20 * synaptic_current_SFA (snd (after_steps sfa_net relay_input False 3)) ! 1
   \<and> synaptic_current_SFA (snd (after_steps sfa_net relay_input False 3)) ! 1 \<noteq> 0
   \<and> col (EPSC_seq (snd (after_steps sfa_net relay_input False 3))) (Suc 2)
       = EPSC (snd (after_steps sfa_net relay_input False 3))"
proof -
  let ?sk = "snd (after_steps sfa_net relay_input False 2)"
  let ?sk' = "snd (after_steps sfa_net relay_input False 3)"
  have k: "(2::nat) < length relay_input" by (simp add: relay_input_def)
  have a1: "after_steps (runs sfa_net []) relay_input False 2 = (None, ?sk)"
    using relay_run_2 by (simp add: prod_eq_iff)
  have a2: "after_steps (runs sfa_net []) relay_input False (Suc 2) = (None, ?sk')"
    using relay_run_3(1) by (simp add: prod_eq_iff eval_nat_numeral)
  have j: "(0::nat) < neuron_num sfa_net" "(1::nat) < neuron_num sfa_net"
    by (simp_all add: sfa_net_def small_net_def)
  have cf: "c_keep_data sfa_config" "c_model sfa_config = ''SFA''"
    "c_Vth sfa_config - c_Vreset sfa_config = 10"
    by (simp_all add: sfa_config_def small_config_def default_config_def)
  have sp: "spikes ?sk' ! 0" "\<not> spikes ?sk' ! 1" by (simp_all add: relay_run_3(2))
  have cn: "connections sfa_net = [[0, - 20], [25, 0]]" by (simp add: sfa_net_def small_net_def)
  have ls: "length (synaptic_current_SFA ?sk') = 2"
    by (simp add: synaptic_current_SFA_def relay_run_3(3))
  then obtain x y where xy: "synaptic_current_SFA ?sk' = [x, y]"
    by (cases "synaptic_current_SFA ?sk'"; cases "tl (synaptic_current_SFA ?sk')") auto
  have d0: "dot (connections sfa_net) (synaptic_current_SFA ?sk') ! 0
              = - 20 * synaptic_current_SFA ?sk' ! 1"
    unfolding xy cn by (simp add: dot_def)
  have ne: "synaptic_current_SFA ?sk' ! 1 \<noteq> 0"
    by (simp add: synaptic_current_SFA_def relay_run_3)
  from reset_after_spike[OF Network_sfa k a1 a2 j(1)] sp(1) cf
  have r0: "spikes_t ?sk' ! 0 = real (Suc 2) * c_dt sfa_config
        \<and> Vseq ?sk' ! 0 ! (Suc 2) = 0 \<and> spikes_seq ?sk' ! 0 ! (Suc 2) = 1
        \<and> EPSC ?sk' ! 0 = dot (connections sfa_net) (synaptic_current_SFA ?sk') ! 0
        \<and> Vs ?sk' ! 0 = 10
        \<and> col (EPSC_seq ?sk') (Suc 2) = EPSC ?sk'"
    by auto
  from reset_after_spike[OF Network_sfa k a1 a2 j(2)] sp(2) cf
  have "Vseq ?sk' ! 1 ! (Suc 2) = Vs ?sk' ! 1 \<and> spikes_seq ?sk' ! 1 ! (Suc 2) = 0"
    by auto
  then have r1: "Vseq ?sk' ! 1 ! (Suc 2) = 74974647 / 7500000"
    "spikes_seq ?sk' ! 1 ! (Suc 2) = 0"
    by (simp_all add: relay_run_3(4))
  show ?thesis using Network_sfa k a1 a2 j relay_run_3(2) r0 r1 d0 ne by simp
qed

text \<open>The run of the small network on \<open>spike_input\<close>: neuron 0 spikes in the second
  step.\<close>

lemma spike_run_2:
  "fst (after_steps small_net spike_input False 2) = None"
  "spikes (snd (after_steps small_net spike_input False 2)) = [True, False]"
  "spikes_t (snd (after_steps small_net spike_input False 2)) = [2 / 100, - 1]"
  "Vs (snd (after_steps small_net spike_input False 2)) = [10, 0]"
  "type_array (snd (after_steps small_net spike_input False 2)) = [False, True]"
  by (simp_all add: eval_defs)

text \<open>The third iteration of the same run as an instance of C2: neuron 0 has spiked one
  step before and is excluded, neuron 1 has never spiked and is active.\<close>

theorem lif_refractory_exclusion_witness:
  "Network small_config [0] zero_draws = Inr small_net \<and> c_model small_config = ''LIF''
   \<and> (2::nat) < length spike_input
   \<and> after_steps (runs small_net []) spike_input False 2
       = (None, snd (after_steps small_net spike_input False 2))
   \<and> (0::nat) < neuron_num small_net
   \<and> spikes_t (snd (after_steps small_net spike_input False 2)) ! 0 \<noteq> - 1
   \<and> 0 < real (Suc 2) * dt small_net - spikes_t (snd (after_steps small_net spike_input False 2)) ! 0
   \<and> real (Suc 2) * dt small_net - spikes_t (snd (after_steps small_net spike_input False 2)) ! 0
        \<le> pick (ref small_net) (type_array (snd (after_steps small_net spike_input False 2)) ! 0)
   \<and> 0 \<notin> set (active (active_set
         ((snd (after_steps small_net spike_input False 2))\<lparr>t_now := real (Suc 2) * dt small_net\<rparr>)))
   \<and> 1 \<in> set (active (active_set
         ((snd (after_steps small_net spike_input False 2))\<lparr>t_now := real (Suc 2) * dt small_net\<rparr>)))"
proof -
  let ?sk = "snd (after_steps small_net spike_input False 2)"
  have m: "c_model small_config = ''LIF''" by (simp add: small_config_def default_config_def)
  have k: "(2::nat) < length spike_input" by (simp add: spike_input_def)
  have a: "after_steps (runs small_net []) spike_input False 2 = (None, ?sk)"
    using spike_run_2(1) by (simp add: prod_eq_iff)
  have j: "(0::nat) < neuron_num small_net" "(1::nat) < neuron_num small_net"
    by (simp_all add: small_net_def)
  have d: "dt small_net = 1 / 100" "ref small_net = (2, 3)"
    by (simp_all add: small_net_def)
  have h: "spikes_t ?sk ! 0 \<noteq> - 1"
    "0 < real (Suc 2) * dt small_net - spikes_t ?sk ! 0"
    "real (Suc 2) * dt small_net - spikes_t ?sk ! 0 \<le> pick (ref small_net) (type_array ?sk ! 0)"
    "spikes_t ?sk ! 1 = - 1"
    by (simp_all add: spike_run_2 d pick_def)
  from lif_refractory_exclusion[OF Network_small m k a j(1)] h(1,2,3)
  have e: "0 \<notin> set (active (active_set (?sk\<lparr>t_now := real (Suc 2) * dt small_net\<rparr>)))"
    by blast
  from lif_refractory_exclusion[OF Network_small m k a j(2)] h(4)
  have i: "1 \<in> set (active (active_set (?sk\<lparr>t_now := real (Suc 2) * dt small_net\<rparr>)))"
    by blast
  show ?thesis using Network_small m k a j(1) h(1,2,3) e i by blast
qed


section \<open>Adaptation\<close>

lemma Network_fields_SFA:
  assumes "Network c inh rnd = Inr s"
  shows "tauN s = c_tauN c" "alpha s = c_alpha c"
  using Network_Inr[OF assms]
  by (auto simp: reset_history_def Let_def blank_net_def)

lemma after_steps_Suc_D:
  assumes "k < length I" and "after_steps s I ty (Suc k) = (None, sk')"
  shows "\<exists>sk. after_steps s I ty k = (None, sk)
           \<and> step ty I (Suc k, real (Suc k) * dt s) sk = (None, sk')"
proof -
  have t: "take (Suc k) (schedule s (length I))
             = take k (schedule s (length I)) @ [schedule s (length I) ! k]"
    by (rule take_Suc_conv_app_nth) (use assms(1) in \<open>simp add: length_schedule\<close>)
  obtain r sk where a: "after_steps s I ty k = (r, sk)" by (cases "after_steps s I ty k")
  have "r = None"
    using assms(2) a t by (cases r) (simp_all add: after_steps_def run_steps_append)
  then show ?thesis
    using assms a t schedule_nth[OF assms(1), of s]
    by (simp add: after_steps_def run_steps_append split: prod.splits option.splits)
qed

lemma integrate_spikes_t: "integrate s = (r, s3) \<Longrightarrow> spikes_t s3 = spikes_t s"
  by (auto simp: integrate_def call_model_def SFA_def K_frac_def Let_def
      split: option.splits kernel.splits sum.splits prod.splits)

lemma fire_spike_times:
  assumes "spike_times_ok \<tau> s" and "\<tau> \<le> tc" and "0 < tc"
  shows "spike_times_ok tc (fire tc s)"
proof -
  have old: "st = - 1 \<or> (0 < st \<and> st \<le> tc)" if "st \<in> set (spikes_t s)" for st
    using assms(1,2) that by (auto simp: spike_times_ok_def list_all_iff)
  have "list_all (\<lambda>st. st = - 1 \<or> (0 < st \<and> st \<le> tc))
          (map2 (\<lambda>b st. if b then tc else st) sp (spikes_t s))" for sp
    unfolding list_all_iff
  proof
    fix x
    assume "x \<in> set (map2 (\<lambda>b st. if b then tc else st) sp (spikes_t s))"
    then obtain b st where m: "(b, st) \<in> set (zip sp (spikes_t s))"
      and x: "x = (if b then tc else st)" by auto
    from m have "st \<in> set (spikes_t s)" by (rule set_zip_rightD)
    from old[OF this] show "x = - 1 \<or> (0 < x \<and> x \<le> tc)"
      using x assms(3) by (cases b) simp_all
  qed
  then show ?thesis by (simp add: spike_times_ok_def fire_def Let_def)
qed

lemma step_spike_times:
  assumes "step ty I (i, tc) s = (None, s')" and "spike_times_ok \<tau> s" and "\<tau> \<le> tc" and "0 < tc"
  shows "spike_times_ok tc s'"
proof -
  from step_None_D[OF assms(1)] obtain I_cur s2 s3 where
    ec: "external_current ty (I ! (i - 1)) tc (active_set (s\<lparr>t_now := tc\<rparr>)) = (Inr I_cur, s2)"
    and ig: "integrate s2 = (None, s3)"
    and fin: "finish_step i tc I_cur s3 = (None, s')" by blast
  from external_current_dyn[OF ec] obtain it where
    s2: "s2 = (active_set (s\<lparr>t_now := tc\<rparr>))\<lparr>input_t := it\<rparr>" by blast
  have "spikes_t s3 = spikes_t s"
    using integrate_spikes_t[OF ig] by (simp add: s2 active_set_def)
  then have o3: "spike_times_ok \<tau> s3" using assms(2) by (simp add: spike_times_ok_def)
  from finish_step_None_E[OF fin] obtain ep v where
    s': "s' = (settle (record_step i ((fire tc s3)\<lparr>EPSC := ep\<rparr>)))\<lparr>Is := v\<rparr>" by blast
  have "spikes_t s' = spikes_t (fire tc s3)"
    by (simp add: s' settle_def record_step_fields)
  then show ?thesis
    using fire_spike_times[OF o3 assms(3,4)] by (simp add: spike_times_ok_def)
qed

lemma after_steps_spike_times:
  assumes "0 < dt s" and "k \<le> length I" and "after_steps s I ty k = (None, sk)"
  shows "spike_times_ok (real k * dt s) sk"
  using assms(2,3)
proof (induction k arbitrary: sk)
  case 0
  then have "sk = start_run s I" by (simp add: after_steps_def)
  then show ?case by (simp add: spike_times_ok_def start_run_fields list_all_length)
next
  case (Suc k)
  then have k: "k < length I" by simp
  from after_steps_Suc_D[OF k Suc.prems(2)] obtain sk0 where
    a: "after_steps s I ty k = (None, sk0)"
    and st: "step ty I (Suc k, real (Suc k) * dt s) sk0 = (None, sk)" by blast
  have o: "spike_times_ok (real k * dt s) sk0" using Suc.IH[OF _ a] k by simp
  have le: "real k * dt s \<le> real (Suc k) * dt s" using assms(1) by (simp add: algebra_simps)
  have pos: "0 < real (Suc k) * dt s" using assms(1) by simp
  show ?case by (rule step_spike_times[OF st o le pos])
qed

lemma integrate_SFA_n_open:
  assumes "integrate s = (None, s3)" and "model s = Some SFA_kernel"
  shows "n_open s3 = n_open (K_frac s)"
  using assms
  by (auto simp: integrate_def call_model_def SFA_def Let_def
      split: option.splits sum.splits prod.splits)

lemma K_gate_window:
  assumes "st = - 1 \<or> (0 < st \<and> st \<le> \<tau>)" and "\<tau> < t" and "0 < t"
  shows "K_gate t st \<longleftrightarrow> (0 < t - st \<and> t - st \<le> 1)"
  using assms by (auto simp: K_gate_def)


text \<open>The update of \<open>K_frac\<close> in an iteration of a run, with the gate as the source writes
  it.\<close>

lemma n_open_step:
  assumes "Network c inh rnd = Inr s0" and "c_model c = ''SFA''"
    and "k < length I"
    and "after_steps (runs s0 calls) I ty k = (None, sk)"
    and "after_steps (runs s0 calls) I ty (Suc k) = (None, sk')"
    and "j < neuron_num s0"
  shows "n_open sk' ! j =
           n_open sk ! j - c_dt c * (n_open sk ! j / c_tauN c
             - c_alpha c * (1 - n_open sk ! j)
               * of_bool (K_gate (real (Suc k) * c_dt c) (spikes_t sk ! j)))"
proof -
  let ?s = "runs s0 calls"
  let ?t = "real (Suc k) * c_dt c"
  let ?s1 = "active_set (sk\<lparr>t_now := ?t\<rparr>)"
  let ?n = "n_open sk ! j"
  let ?st = "spikes_t sk ! j"
  note rw = runs_wf[OF assms(1), of calls]
  note fl = Network_fields[OF assms(1)]
  note fs = Network_fields_SFA[OF assms(1)]
  note inv = after_steps_inv[OF assms(4) rw(1)]
  note sfk = static_fields[OF inv(2)]
  note sf0 = static_fields[OF same_frame_runs[of s0 calls]]
  have dt: "dt ?s = c_dt c" using rw(5) fl(8) by simp
  have par: "dt sk = c_dt c" "tauN sk = c_tauN c" "alpha sk = c_alpha c"
    "model_type sk = ''SFA''" "neuron_num sk = neuron_num s0"
    using sfk(6,22,23,12,7) sf0(22,23) dt rw(2,3) fs assms(2) by simp_all
  have st: "step ty I (Suc k, ?t) sk = (None, sk')"
    using after_steps_Suc[OF assms(3,4)] assms(5) dt by simp
  from step_None_D[OF st] obtain I_cur s2 s3 where
    ec: "external_current ty (I ! k) ?t ?s1 = (Inr I_cur, s2)"
    and ig: "integrate s2 = (None, s3)"
    and fin: "finish_step (Suc k) ?t I_cur s3 = (None, sk')" by auto
  from external_current_dyn[OF ec] obtain it where s2: "s2 = ?s1\<lparr>input_t := it\<rparr>" by blast
  have r2: "run_inv (length I) s2" unfolding s2 by (rule run_inv_begin[OF inv(1)])
  from integrate_None_inv[OF ig r2] have r3: "run_inv (length I) s3" by simp
  have f2: "same_frame ?s s2"
    using same_frame_trans[OF inv(2) same_frame_trans[OF same_frame_active_set
          same_frame_external_current[OF ec]]] .
  have f3: "same_frame ?s s3" using same_frame_trans[OF f2 same_frame_integrate[OF ig]] .
  have wf2: "wf_net s2" by (rule wf_net_frame[OF f2 rw(1)])
  have wf3: "wf_net s3" by (rule wf_net_frame[OF f3 rw(1)])
  have mt2: "model_type s2 = ''SFA''" using static_fields(12)[OF f2] rw(2) assms(2) by simp
  have k2: "model s2 = Some SFA_kernel" using wf2 mt2 by (simp add: wf_net_def)
  have j3: "j < neuron_num s3" using static_fields(7)[OF f3] rw(3) assms(6) by simp
  have k': "Suc k \<le> length I" using assms(3) by simp
  have n': "n_open sk' = n_open (K_frac s2)"
    using finish_step_fields(8)[OF fin wf3 r3 j3 k'] integrate_SFA_n_open[OF ig k2] by simp
  have ln: "j < length (n_open sk)" "j < length (spikes_t sk)"
    using run_inv_lengths(2,4)[OF inv(1)] par(5) assms(6) by simp_all
  have kf: "n_open (K_frac s2) ! j =
          ?n - c_dt c * (?n / c_tauN c - c_alpha c * (1 - ?n) * of_bool (K_gate ?t ?st))"
    using ln par by (simp add: K_frac_def s2 active_set_def)
  show ?thesis using n' kf by simp
qed

text \<open>The networks with the step \<open>dt = 1\<close>, and their runs on \<open>kick_input\<close> up to the
  iteration after the spike of neuron 0.\<close>

lemma Network_coarse: "Network coarse_config [0] zero_draws = Inr coarse_net"
  by (simp add: net_defs coarse_config_def coarse_net_def)

lemma Network_short: "Network short_config [0] zero_draws = Inr short_net"
  by (simp add: net_defs short_config_def short_net_def)

lemmas kick_defs = sfa_defs kick_input_def coarse_net_def short_net_def

lemma coarse_run:
  "fst (after_steps coarse_net kick_input False 2) = None"
  "spikes_t (snd (after_steps coarse_net kick_input False 2)) = [2, - 1]"
  "n_open (snd (after_steps coarse_net kick_input False 2)) = [0, 0]"
  "fst (after_steps coarse_net kick_input False 3) = None"
  "spikes_t (snd (after_steps coarse_net kick_input False 3)) = [2, - 1]"
  "n_open (snd (after_steps coarse_net kick_input False 3)) = [2 / 100, 0]"
  by (simp_all add: kick_defs)

lemma short_run:
  "fst (after_steps short_net kick_input False 3) = None"
  "spikes_t (snd (after_steps short_net kick_input False 3)) = [2, - 1]"
  "n_open (snd (after_steps short_net kick_input False 3)) = [2 / 100, 0]"
  by (simp_all add: kick_defs)

text \<open>
  Claim C3, as amended.  On a constructed SFA network with a positive step \<open>dt\<close> (and
  \<open>tauN\<close> other than zero), in any run, every iteration \<open>k + 1\<close> that runs to its end, at
  the time \<open>t = (k + 1) * dt\<close>, takes the adaptation fraction \<open>n\<close> of every neuron \<open>j\<close> to
  \<open>n - dt * (n / tauN - alpha * (1 - n) * gate)\<close>, where \<open>gate\<close> is 1 exactly when the
  last-spike time \<open>s\<close> of the neuron satisfies \<open>0 < t - s \<le> 1\<close>.  The source writes the
  gate as \<open>t - s \<le> 1 and s > 0\<close>; the two agree in every state that a run reaches.
  Outside the window the update is \<open>n - dt * n / tauN\<close>; when \<open>dt \<le> tauN\<close> this is \<open>n\<close>
  times a factor in \<open>[0, 1)\<close>, a monotone decay toward 0.
\<close>

theorem adaptation_update:
  assumes "Network c inh rnd = Inr s0" and "c_model c = ''SFA''"
    and "0 < c_dt c" and "c_tauN c \<noteq> 0"
    and "k < length I"
    and "after_steps (runs s0 calls) I ty k = (None, sk)"
    and "after_steps (runs s0 calls) I ty (Suc k) = (None, sk')"
    and "j < neuron_num s0"
  shows "n_open sk' ! j =
           n_open sk ! j - c_dt c * (n_open sk ! j / c_tauN c
             - c_alpha c * (1 - n_open sk ! j)
               * of_bool (0 < real (Suc k) * c_dt c - spikes_t sk ! j
                          \<and> real (Suc k) * c_dt c - spikes_t sk ! j \<le> 1))
       \<and> (\<not> (0 < real (Suc k) * c_dt c - spikes_t sk ! j
              \<and> real (Suc k) * c_dt c - spikes_t sk ! j \<le> 1) \<longrightarrow>
            n_open sk' ! j = n_open sk ! j - c_dt c * n_open sk ! j / c_tauN c
          \<and> (c_dt c \<le> c_tauN c \<longrightarrow>
                n_open sk' ! j = (1 - c_dt c / c_tauN c) * n_open sk ! j
              \<and> 0 \<le> 1 - c_dt c / c_tauN c \<and> 1 - c_dt c / c_tauN c < 1
              \<and> \<bar>n_open sk' ! j\<bar> \<le> \<bar>n_open sk ! j\<bar>))"
proof -
  let ?s = "runs s0 calls"
  let ?t = "real (Suc k) * c_dt c"
  let ?n = "n_open sk ! j"
  let ?st = "spikes_t sk ! j"
  note rw = runs_wf[OF assms(1), of calls]
  note fl = Network_fields[OF assms(1)]
  note inv = after_steps_inv[OF assms(6) rw(1)]
  have dt: "dt ?s = c_dt c" using rw(5) fl(8) by simp
  have nn: "neuron_num sk = neuron_num s0" using static_fields(7)[OF inv(2)] rw(3) by simp
  have ln: "j < length (spikes_t sk)"
    using run_inv_lengths(2)[OF inv(1)] nn assms(8) by simp
  note kf = n_open_step[OF assms(1,2,5,6,7,8)]
  have ok: "spike_times_ok (real k * dt ?s) sk"
    by (rule after_steps_spike_times[OF _ _ assms(6)]) (use assms(3,5) dt in simp_all)
  have "?st \<in> set (spikes_t sk)" using ln by simp
  with ok have w: "?st = - 1 \<or> (0 < ?st \<and> ?st \<le> real k * c_dt c)"
    by (simp add: spike_times_ok_def list_all_iff dt)
  have lt: "real k * c_dt c < ?t" using assms(3) by (simp add: algebra_simps)
  have pos: "0 < ?t" using assms(3) by simp
  note g = K_gate_window[OF w lt pos]
  have main: "n_open sk' ! j =
           ?n - c_dt c * (?n / c_tauN c - c_alpha c * (1 - ?n)
               * of_bool (0 < ?t - ?st \<and> ?t - ?st \<le> 1))"
    using kf g by simp
  have off: "n_open sk' ! j = ?n - c_dt c * ?n / c_tauN c"
    if nb: "\<not> (0 < ?t - ?st \<and> ?t - ?st \<le> 1)"
  proof -
    have z: "(of_bool (0 < ?t - ?st \<and> ?t - ?st \<le> 1) :: real) = 0"
      using nb by (simp only: of_bool_eq_0_iff not_False_eq_True)
    show ?thesis unfolding main z by simp
  qed
  have dec: "n_open sk' ! j = (1 - c_dt c / c_tauN c) * ?n
              \<and> 0 \<le> 1 - c_dt c / c_tauN c \<and> 1 - c_dt c / c_tauN c < 1
              \<and> \<bar>n_open sk' ! j\<bar> \<le> \<bar>?n\<bar>"
    if a: "\<not> (0 < ?t - ?st \<and> ?t - ?st \<le> 1)" and b: "c_dt c \<le> c_tauN c"
  proof -
    have tp: "0 < c_tauN c" using assms(3) b by simp
    have e: "n_open sk' ! j = (1 - c_dt c / c_tauN c) * ?n"
      using off[OF a] by (simp add: algebra_simps)
    have r: "0 \<le> 1 - c_dt c / c_tauN c" "1 - c_dt c / c_tauN c < 1"
      using tp b assms(3) by simp_all
    have "\<bar>n_open sk' ! j\<bar> = (1 - c_dt c / c_tauN c) * \<bar>?n\<bar>"
      using e r(1) by (simp add: abs_mult)
    also have "\<dots> \<le> 1 * \<bar>?n\<bar>"
      by (rule mult_right_mono) (use r(2) in simp_all)
    finally show ?thesis using e r by simp
  qed
  show ?thesis using main off dec by blast
qed

text \<open>The run of the network with \<open>dt = 1\<close> on \<open>kick_input\<close> as an instance of C3.
  Neuron 0 spikes at the time 2; in the third iteration the gate is open and its fraction
  rises from 0 to \<open>dt * alpha = 2 / 100\<close>; in the fourth the gate is closed and the
  fraction decays by the factor \<open>1 - 1 / 230\<close>.\<close>

theorem adaptation_update_witness:
  "Network coarse_config [0] zero_draws = Inr coarse_net \<and> c_model coarse_config = ''SFA''
   \<and> 0 < c_dt coarse_config \<and> c_tauN coarse_config \<noteq> 0 \<and> (3::nat) < length kick_input
   \<and> after_steps (runs coarse_net []) kick_input False 2
        = (None, snd (after_steps coarse_net kick_input False 2))
   \<and> after_steps (runs coarse_net []) kick_input False 3
        = (None, snd (after_steps coarse_net kick_input False 3))
   \<and> after_steps (runs coarse_net []) kick_input False (Suc 3)
        = (None, snd (after_steps coarse_net kick_input False 4))
   \<and> (0::nat) < neuron_num coarse_net
   \<and> spikes_t (snd (after_steps coarse_net kick_input False 2)) ! 0 = 2
   \<and> n_open (snd (after_steps coarse_net kick_input False 2)) ! 0 = 0
   \<and> n_open (snd (after_steps coarse_net kick_input False 3)) ! 0 = 2 / 100
   \<and> spikes_t (snd (after_steps coarse_net kick_input False 3)) ! 0 = 2
   \<and> \<not> (0 < real (Suc 3) * c_dt coarse_config
                 - spikes_t (snd (after_steps coarse_net kick_input False 3)) ! 0
          \<and> real (Suc 3) * c_dt coarse_config
                 - spikes_t (snd (after_steps coarse_net kick_input False 3)) ! 0 \<le> 1)
   \<and> c_dt coarse_config \<le> c_tauN coarse_config
   \<and> n_open (snd (after_steps coarse_net kick_input False 4)) ! 0 = 229 / 11500
   \<and> \<bar>n_open (snd (after_steps coarse_net kick_input False 4)) ! 0\<bar>
        \<le> \<bar>n_open (snd (after_steps coarse_net kick_input False 3)) ! 0\<bar>"
proof -
  let ?s2 = "snd (after_steps coarse_net kick_input False 2)"
  let ?s3 = "snd (after_steps coarse_net kick_input False 3)"
  let ?s4 = "snd (after_steps coarse_net kick_input False 4)"
  have m: "c_model coarse_config = ''SFA''" "0 < c_dt coarse_config" "c_tauN coarse_config \<noteq> 0"
    "c_dt coarse_config = 1" "c_tauN coarse_config = 230" "c_alpha coarse_config = 2 / 100"
    by (simp_all add: coarse_config_def sfa_config_def small_config_def default_config_def)
  have k: "(2::nat) < length kick_input" "(3::nat) < length kick_input"
    by (simp_all add: kick_input_def)
  have a2: "after_steps (runs coarse_net []) kick_input False 2 = (None, ?s2)"
    using coarse_run(1) by (simp add: prod_eq_iff)
  have a3: "after_steps (runs coarse_net []) kick_input False 3 = (None, ?s3)"
    using coarse_run(4) by (simp add: prod_eq_iff)
  have a3': "after_steps (runs coarse_net []) kick_input False (Suc 2) = (None, ?s3)"
    using a3 by (simp add: eval_nat_numeral)
  have j: "(0::nat) < neuron_num coarse_net"
    by (simp add: coarse_net_def sfa_net_def small_net_def)
  have wf: "wf_net coarse_net" by (rule Network_invs(3)[OF Network_coarse])
  have mt: "model_type coarse_net = ''LIF'' \<or> model_type coarse_net = ''SFA''"
    by (simp add: coarse_net_def sfa_net_def)
  have bc: "broadcastable coarse_net kick_input False"
    by (simp add: broadcastable_def row_ok_def kick_input_def coarse_net_def sfa_net_def
        small_net_def)
  from after_steps_ok[OF wf mt bc, of 4] obtain s4 where
    "after_steps coarse_net kick_input False 4 = (None, s4)"
    by (auto simp: kick_input_def)
  then have a4: "after_steps (runs coarse_net []) kick_input False (Suc 3) = (None, ?s4)"
    by (simp add: eval_nat_numeral)
  from adaptation_update[OF Network_coarse m(1,2,3) k(1) a2 a3' j]
  have n3: "n_open ?s3 ! 0 = 2 / 100"
    by (simp add: coarse_run m)
  have off: "\<not> (0 < real (Suc 3) * c_dt coarse_config - spikes_t ?s3 ! 0
          \<and> real (Suc 3) * c_dt coarse_config - spikes_t ?s3 ! 0 \<le> 1)"
    by (simp add: coarse_run m)
  have le: "c_dt coarse_config \<le> c_tauN coarse_config" by (simp add: m)
  from adaptation_update[OF Network_coarse m(1,2,3) k(2) a3 a4 j] off le
  have d: "n_open ?s4 ! 0 = (1 - c_dt coarse_config / c_tauN coarse_config) * n_open ?s3 ! 0
        \<and> \<bar>n_open ?s4 ! 0\<bar> \<le> \<bar>n_open ?s3 ! 0\<bar>"
    by blast
  then have n4: "n_open ?s4 ! 0 = 229 / 11500" by (simp add: n3 m)
  have e: "spikes_t ?s2 ! 0 = 2" "n_open ?s2 ! 0 = 0" "spikes_t ?s3 ! 0 = 2"
    by (simp_all add: coarse_run)
  show ?thesis using Network_coarse m(1,2,3) k(2) a2 a3 a4 j e n3 off le n4 d by blast
qed

text \<open>
  Claim C3 as it is stated fails.  Outside the window the update multiplies \<open>n\<close> by
  \<open>1 - dt / tauN\<close>, which is a decay only when \<open>dt \<le> tauN\<close>.  With \<open>dt = 1\<close> and
  \<open>tauN = 1 / 4\<close> the same run takes the fraction of neuron 0, with the gate closed, from
  \<open>2 / 100\<close> to \<open>- 6 / 100\<close>: the sign changes and the magnitude grows.
\<close>

theorem adaptation_growth_counterexample:
  "Network short_config [0] zero_draws = Inr short_net
   \<and> c_model short_config = ''SFA'' \<and> c_dt short_config = 1 \<and> c_tauN short_config = 1 / 4
   \<and> fst (after_steps short_net kick_input False 3) = None
   \<and> fst (after_steps short_net kick_input False 4) = None
   \<and> spikes_t (snd (after_steps short_net kick_input False 3)) ! 0 = 2
   \<and> \<not> (0 < 4 * c_dt short_config - spikes_t (snd (after_steps short_net kick_input False 3)) ! 0
          \<and> 4 * c_dt short_config
               - spikes_t (snd (after_steps short_net kick_input False 3)) ! 0 \<le> 1)
   \<and> n_open (snd (after_steps short_net kick_input False 3)) ! 0 = 2 / 100
   \<and> n_open (snd (after_steps short_net kick_input False 4)) ! 0 = - 6 / 100
   \<and> \<bar>n_open (snd (after_steps short_net kick_input False 3)) ! 0\<bar>
        < \<bar>n_open (snd (after_steps short_net kick_input False 4)) ! 0\<bar>"
proof -
  let ?s3 = "snd (after_steps short_net kick_input False 3)"
  let ?s4 = "snd (after_steps short_net kick_input False 4)"
  have m: "c_model short_config = ''SFA''" "c_dt short_config = 1" "c_tauN short_config = 1 / 4"
    "c_alpha short_config = 2 / 100"
    by (simp_all add: short_config_def sfa_config_def small_config_def default_config_def)
  have k: "(3::nat) < length kick_input" by (simp add: kick_input_def)
  have a3: "after_steps (runs short_net []) kick_input False 3 = (None, ?s3)"
    using short_run(1) by (simp add: prod_eq_iff)
  have j: "(0::nat) < neuron_num short_net"
    by (simp add: short_net_def sfa_net_def small_net_def)
  have wf: "wf_net short_net" by (rule Network_invs(3)[OF Network_short])
  have mt: "model_type short_net = ''LIF'' \<or> model_type short_net = ''SFA''"
    by (simp add: short_net_def sfa_net_def)
  have bc: "broadcastable short_net kick_input False"
    by (simp add: broadcastable_def row_ok_def kick_input_def short_net_def sfa_net_def
        small_net_def)
  from after_steps_ok[OF wf mt bc, of 4] obtain s4 where
    r4: "after_steps short_net kick_input False 4 = (None, s4)"
    by (auto simp: kick_input_def)
  then have a4: "after_steps (runs short_net []) kick_input False (Suc 3) = (None, ?s4)"
    by (simp add: eval_nat_numeral)
  have f4: "fst (after_steps short_net kick_input False 4) = None" using r4 by simp
  have e: "spikes_t ?s3 ! 0 = 2" "n_open ?s3 ! 0 = 2 / 100" by (simp_all add: short_run)
  from n_open_step[OF Network_short m(1) k a3 a4 j]
  have n4: "n_open ?s4 ! 0 = - 6 / 100"
    by (simp add: e m K_gate_def)
  show ?thesis using Network_short m(1,2,3) short_run(1) f4 by (simp add: e n4)
qed


section \<open>State that survives the reset\<close>

text \<open>The further definitions that the simplifier unfolds for a run with spike events.\<close>

lemmas run_defs = eval_defs run_model_def fill_idx_def call_input_current_def
  input_current_LIF_def as_float_def

lemma leak_first_run:
  "fst (run_model small_net [[1]] True) = None"
  "input_t (snd (run_model small_net [[1]] True)) = [1 / 100]"
  by (simp_all add: run_defs)

text \<open>
  Claim C7 fails on the code.  \<open>reset_history\<close> does not assign \<open>input_t\<close>, which only
  the constructor sets to \<open>-1\<close>.  After a run of the small network with a spike event on
  its input channel at the first step, \<open>input_t\<close> is \<open>[dt]\<close>, and it still is after the
  reset that starts the next run.  A second run with no spike event then ends its first
  step with the driving current \<open>[- 20, 5]\<close> of the earlier event, where the same run on
  the network as constructed ends it with \<open>[0, 0]\<close>.
\<close>

theorem input_t_survives_reset:
  "input_t small_net = [- 1]
   \<and> input_t (snd (run_model small_net [[1]] True)) = [1 / 100]
   \<and> input_t (reset_history (snd (run_model small_net [[1]] True))) = [1 / 100]
   \<and> Is (snd (run_model (snd (run_model small_net [[1]] True)) [[0]] True)) = [- 20, 5]
   \<and> Is (snd (run_model small_net [[0]] True)) = [0, 0]"
  by (simp add: run_defs)

section \<open>Local field potential of the small network\<close>

lemmas lfp_defs = get_phi_def phi_term_def get_pos_def lattice_size_def unravel_def get_r_def
  arctan2_def calc_dist_def law_of_cosines_def fdiv_def add_phi_def small_net_def

text \<open>
  Claim C9 fails on the code.  \<open>calc_dist\<close> computes
  \<open>sqrt(a\<^sup>2 + b\<^sup>2 - a * b * cos \<theta>)\<close>, without the factor 2 of the law of cosines that its
  comment names.  Neuron 1 of the small network lies at \<open>x = 1, y = 0\<close>; from the
  observation point of radius 2 and angle 0 its distance is 1, and \<open>calc_dist\<close> gives
  \<open>sqrt 3\<close>, which is the distance that \<open>get_phi\<close> then divides by.  The guard of \<open>get_phi\<close>
  compares the coordinate triples, not the positions: for the origin written with the
  angle 1 it lets neuron 0, which lies at the origin, through, the distance is 0 and the
  result is not finite.
\<close>

theorem calc_dist_misses_factor_two:
  "get_pos small_net 1 = Inr (0, 1, 0)
   \<and> calc_dist (2, 0, 0) (get_r 1 0) = sqrt 3
   \<and> law_of_cosines (2, 0, 0) (get_r 1 0) = 1
   \<and> get_phi small_net [[1], [1]] (2, 0, 0) 0 1
        = Inr (Some (1 / (2 * (4 * pi)) + 1 / (sqrt 3 * (4 * pi))))
   \<and> get_phi small_net [[1], [1]] (0, 1, 0) 0 1 = Inr None"
  by (simp add: lfp_defs eval_nat_numeral)


end
